theory Spec2Isabelle
  imports Main "HOL-Library.Sublist"
begin

section \<open>Python values used by the application\<close>

text \<open>
  The application is a single Python file, \<^verbatim>\<open>app.py\<close>. Its state lives in three objects:
  the calendar table (displayed year and month, the cell-to-date dictionary), the todo
  panel (selected date, highlight index) and the application (the task dictionary, the
  last observed date, the path of \<^verbatim>\<open>tasks.json\<close>). Every method is modelled as a function
  from the state before the call to the state after it.

  Exceptions of the source are values of \<open>exn\<close>. A computation without side effects that
  may raise returns \<open>exn + 'a\<close>; a method that mutates its object and may raise returns the
  exception (if any) together with the object as the raise left it.
\<close>

datatype exn =
  ValueError | IllegalMonthError | TypeError | AttributeError | JSONDecodeError | OSError

text \<open>
  What \<^verbatim>\<open>json.loads\<close> can return: \<^verbatim>\<open>None\<close>, a bool, an int, a float (a finite binary
  fraction, an infinity of either sign, or NaN), a str, a list, or a dict with str keys.
  A dict is an association list in insertion order.
\<close>

datatype pyfloat = Finite int int | Infinity bool | NaN

datatype json =
    JNull
  | JBool bool
  | JInt int
  | JFloat pyfloat
  | JStr string
  | JArr "json list"
  | JObj "(string \<times> json) list"

text \<open>Python's \<^verbatim>\<open>bool(x)\<close> on such a value.\<close>

fun truthy :: "json \<Rightarrow> bool" where
  "truthy JNull = False"
| "truthy (JBool b) = b"
| "truthy (JInt n) = (n \<noteq> 0)"
| "truthy (JFloat f) = (case f of Finite m e \<Rightarrow> m \<noteq> 0 | Infinity s \<Rightarrow> True | NaN \<Rightarrow> True)"
| "truthy (JStr s) = (s \<noteq> [])"
| "truthy (JArr xs) = (xs \<noteq> [])"
| "truthy (JObj kvs) = (kvs \<noteq> [])"

subsection \<open>Dictionaries\<close>

text \<open>
  A Python dict keeps its keys in insertion order and holds each key once. Assigning to
  a key that is present replaces the value in place; assigning to a new key appends.
\<close>

type_synonym ('k, 'v) dict = "('k \<times> 'v) list"

primrec dict_set :: "'k \<Rightarrow> 'v \<Rightarrow> ('k, 'v) dict \<Rightarrow> ('k, 'v) dict" where
  "dict_set k v [] = [(k, v)]"
| "dict_set k v (p # ps) = (if fst p = k then (k, v) # ps else p # dict_set k v ps)"

definition dict_get :: "('k, 'v) dict \<Rightarrow> 'k \<Rightarrow> 'v \<Rightarrow> 'v" where
  "dict_get d k dflt = (case map_of d k of None \<Rightarrow> dflt | Some v \<Rightarrow> v)"

text \<open>\<^verbatim>\<open>d.setdefault(k, v)\<close>: the value stored under \<open>k\<close>, after storing \<open>v\<close> if there was none.\<close>

definition setdefault :: "'k \<Rightarrow> 'v \<Rightarrow> ('k, 'v) dict \<Rightarrow> 'v \<times> ('k, 'v) dict" where
  "setdefault k v d = (case map_of d k of None \<Rightarrow> (v, dict_set k v d) | Some b \<Rightarrow> (b, d))"

text \<open>A dict display or comprehension stores its items one after the other.\<close>

definition dict_of_items :: "('k \<times> 'v) list \<Rightarrow> ('k, 'v) dict" where
  "dict_of_items xs = fold (\<lambda>(k, v) d. dict_set k v d) xs []"

subsection \<open>Dates\<close>

text \<open>
  A \<^verbatim>\<open>datetime.date\<close>. The constructor accepts years 1 to 9999, months 1 to 12 and the days
  the month has, and raises \<^verbatim>\<open>ValueError\<close> otherwise.
\<close>

record date =
  dyear :: int
  dmonth :: int
  dday :: int

definition isleap :: "int \<Rightarrow> bool" where
  "isleap y = (y mod 4 = 0 \<and> (y mod 100 \<noteq> 0 \<or> y mod 400 = 0))"

definition mdays :: "int list" where
  "mdays = [0, 31, 28, 31, 30, 31, 30, 31, 31, 30, 31, 30, 31]"

definition days_in_month :: "int \<Rightarrow> int \<Rightarrow> int" where
  "days_in_month y m = mdays ! nat m + (if m = 2 \<and> isleap y then 1 else 0)"

definition valid_date :: "date \<Rightarrow> bool" where
  "valid_date d =
     (1 \<le> dyear d \<and> dyear d \<le> 9999 \<and> 1 \<le> dmonth d \<and> dmonth d \<le> 12 \<and>
      1 \<le> dday d \<and> dday d \<le> days_in_month (dyear d) (dmonth d))"

definition mk_date :: "int \<Rightarrow> int \<Rightarrow> int \<Rightarrow> exn + date" where
  "mk_date y m d =
     (let r = \<lparr>dyear = y, dmonth = m, dday = d\<rparr>
      in if valid_date r then Inr r else Inl ValueError)"

text \<open>Decimal digits, and \<^verbatim>\<open>isoformat\<close>: \<^verbatim>\<open>YYYY-MM-DD\<close>, zero padded.\<close>

definition digit :: "nat \<Rightarrow> char" where
  "digit n = ''0123456789'' ! (n mod 10)"

definition pad2 :: "nat \<Rightarrow> string" where
  "pad2 n = [digit (n div 10), digit n]"

definition pad4 :: "nat \<Rightarrow> string" where
  "pad4 n = [digit (n div 1000), digit (n div 100), digit (n div 10), digit n]"

definition isoformat :: "date \<Rightarrow> string" where
  "isoformat d = pad4 (nat (dyear d)) @ ''-'' @ pad2 (nat (dmonth d)) @ ''-'' @ pad2 (nat (dday d))"

section \<open>The state of the application\<close>

text \<open>The dataclass \<^verbatim>\<open>Task\<close>. Python does not enforce the annotation \<^verbatim>\<open>text: str\<close>: a task
  read from the file holds whatever JSON value the file gives under \<^verbatim>\<open>"text"\<close>.\<close>

record task =
  task_text :: json
  task_done :: bool

datatype message = DateSelected date | MonthChanged int int

text \<open>
  \<^verbatim>\<open>CalendarTable\<close>: the reactive attributes \<^verbatim>\<open>year\<close> and \<^verbatim>\<open>month\<close>, the dictionary
  \<^verbatim>\<open>_cell_to_date\<close>, the rows handed to the table with \<^verbatim>\<open>add_row\<close>, and the messages
  posted so far. The cursor, the column headers and the title belong to the toolkit's
  display and are left out.
\<close>

record calendar_table =
  year :: int
  month :: int
  cell_to_date :: "(nat \<times> nat, date option) dict"
  rows :: "string list list"
  posted :: "message list"

text \<open>\<^verbatim>\<open>TodoPanel\<close>: \<^verbatim>\<open>current_date\<close> and \<^verbatim>\<open>_highlight_index\<close>.\<close>

record todo_panel =
  current_date :: date
  highlight_index :: int

text \<open>
  The file \<^verbatim>\<open>tasks.json\<close> as \<^verbatim>\<open>_load_all_tasks\<close> sees it: absent; present but
  \<^verbatim>\<open>read_text\<close> or \<^verbatim>\<open>json.loads\<close> raises; or present and parsed to a JSON value.
  \<^verbatim>\<open>json.dumps\<close> followed by \<^verbatim>\<open>json.loads\<close> gives back the value that was written, so a
  successful write of a value leaves \<open>Document\<close> of that value.
\<close>

datatype disk = No_file | Unreadable | Document json

text \<open>What the environment does with one \<^verbatim>\<open>write_text\<close>: it succeeds, or it raises
  \<^verbatim>\<open>OSError\<close> and leaves the file in the given state.\<close>

datatype write_outcome = Write_ok | Write_fails disk

text \<open>
  \<^verbatim>\<open>CalTodoApp\<close> with its two widgets, and the index of the panel's \<^verbatim>\<open>ListView\<close>: the
  position it highlights, or \<^verbatim>\<open>None\<close> when it highlights nothing.
\<close>

record app =
  calendar :: calendar_table
  todo :: todo_panel
  tasks_by_date :: "(string, task list) dict"
  last_date :: date
  persist :: disk
  lv_index :: "int option"

section \<open>Task storage and persistence\<close>

definition key_for_date :: "date \<Rightarrow> string" where
  "key_for_date d = isoformat d"

text \<open>\<^verbatim>\<open>get_tasks_for_date\<close>: the bucket of the date, created empty if the key is new.\<close>

definition get_tasks_for_date :: "date \<Rightarrow> app \<Rightarrow> task list \<times> app" where
  "get_tasks_for_date d s =
     (let (b, m) = setdefault (key_for_date d) [] (tasks_by_date s)
      in (b, s\<lparr>tasks_by_date := m\<rparr>))"

text \<open>The dictionary \<^verbatim>\<open>save_all_tasks\<close> hands to \<^verbatim>\<open>json.dumps\<close>: buckets that are
  empty are left out.\<close>

definition task_to_json :: "task \<Rightarrow> json" where
  "task_to_json t = JObj (dict_of_items [(''text'', task_text t), (''done'', JBool (task_done t))])"

definition serializable :: "(string, task list) dict \<Rightarrow> json" where
  "serializable m =
     JObj (dict_of_items (map (\<lambda>(k, v). (k, JArr (map task_to_json v)))
                              (filter (\<lambda>(k, v). v \<noteq> []) m)))"

text \<open>The body of the \<^verbatim>\<open>try\<close> in \<^verbatim>\<open>save_all_tasks\<close>, and the method with its handler
  \<^verbatim>\<open>except Exception: pass\<close>.\<close>

definition save_try :: "write_outcome \<Rightarrow> app \<Rightarrow> exn option \<times> app" where
  "save_try w s =
     (case w of
        Write_ok \<Rightarrow> (None, s\<lparr>persist := Document (serializable (tasks_by_date s))\<rparr>)
      | Write_fails d \<Rightarrow> (Some OSError, s\<lparr>persist := d\<rparr>))"

definition save_all_tasks :: "write_outcome \<Rightarrow> app \<Rightarrow> app" where
  "save_all_tasks w s = (case save_try w s of (None, s') \<Rightarrow> s' | (Some e, s') \<Rightarrow> s')"

definition add_task_for_date :: "write_outcome \<Rightarrow> date \<Rightarrow> string \<Rightarrow> app \<Rightarrow> app" where
  "add_task_for_date w d txt s =
     (let (b, s1) = get_tasks_for_date d s;
          s2 = s1\<lparr>tasks_by_date :=
                 dict_set (key_for_date d) (b @ [\<lparr>task_text = JStr txt, task_done = False\<rparr>])
                   (tasks_by_date s1)\<rparr>
      in save_all_tasks w s2)"

text \<open>
  \<^verbatim>\<open>_load_all_tasks\<close>. Iterating a JSON value: a list gives its elements, a str its
  characters, a dict its keys; anything else raises \<^verbatim>\<open>TypeError\<close>. Only a dict has
  \<^verbatim>\<open>items\<close> and \<^verbatim>\<open>get\<close>; on another value the attribute lookup raises
  \<^verbatim>\<open>AttributeError\<close>.
\<close>

definition py_iter :: "json \<Rightarrow> exn + json list" where
  "py_iter j =
     (case j of
        JArr xs \<Rightarrow> Inr xs
      | JStr s \<Rightarrow> Inr (map (\<lambda>c. JStr [c]) s)
      | JObj kvs \<Rightarrow> Inr (map (\<lambda>(k, v). JStr k) kvs)
      | _ \<Rightarrow> Inl TypeError)"

text \<open>\<^verbatim>\<open>Task(text=i.get("text", ""), done=bool(i.get("done", False)))\<close> for a dict \<^verbatim>\<open>i\<close>.\<close>

definition task_of_entry :: "(string, json) dict \<Rightarrow> task" where
  "task_of_entry kvs =
     \<lparr>task_text = dict_get kvs ''text'' (JStr ''''),
      task_done = truthy (dict_get kvs ''done'' (JBool False))\<rparr>"

definition task_of_item :: "json \<Rightarrow> exn + task" where
  "task_of_item i = (case i of JObj kvs \<Rightarrow> Inr (task_of_entry kvs) | _ \<Rightarrow> Inl AttributeError)"

fun tasks_of_items :: "json list \<Rightarrow> exn + task list" where
  "tasks_of_items [] = Inr []"
| "tasks_of_items (i # is) =
     (case task_of_item i of
        Inl e \<Rightarrow> Inl e
      | Inr t \<Rightarrow> (case tasks_of_items is of Inl e \<Rightarrow> Inl e | Inr ts \<Rightarrow> Inr (t # ts)))"

fun load_items :: "(string \<times> json) list \<Rightarrow> (string, task list) dict \<Rightarrow> exn + (string, task list) dict" where
  "load_items [] loaded = Inr loaded"
| "load_items ((k, items) # rest) loaded =
     (case py_iter items of
        Inl e \<Rightarrow> Inl e
      | Inr is \<Rightarrow>
          (case tasks_of_items is of
             Inl e \<Rightarrow> Inl e
           | Inr ts \<Rightarrow> load_items rest (dict_set k ts loaded)))"

definition load_try :: "app \<Rightarrow> exn + app" where
  "load_try s =
     (case persist s of
        No_file \<Rightarrow> Inr s
      | Unreadable \<Rightarrow> Inl JSONDecodeError
      | Document data \<Rightarrow>
          (case data of
             JObj kvs \<Rightarrow>
               (case load_items kvs [] of
                  Inl e \<Rightarrow> Inl e
                | Inr loaded \<Rightarrow> Inr (s\<lparr>tasks_by_date := loaded\<rparr>))
           | _ \<Rightarrow> Inl AttributeError))"

definition load_all_tasks :: "app \<Rightarrow> app" where
  "load_all_tasks s =
     (case load_try s of
        Inr s' \<Rightarrow> s'
      | Inl e \<Rightarrow> s\<lparr>tasks_by_date := (if tasks_by_date s \<noteq> [] then tasks_by_date s else [])\<rparr>)"

text \<open>
  Startup. \<^verbatim>\<open>__init__\<close> sets the task dictionary to \<^verbatim>\<open>{}\<close> and calls
  \<^verbatim>\<open>_load_all_tasks\<close>; the widgets start on today's month and date with highlight
  index 0. \<open>fresh_app\<close> is the state before the load, \<open>app_init\<close> the state after it.
\<close>

definition fresh_app :: "date \<Rightarrow> disk \<Rightarrow> app" where
  "fresh_app today file =
     \<lparr>calendar = \<lparr>year = dyear today, month = dmonth today, cell_to_date = [], rows = [],
                   posted = []\<rparr>,
      todo = \<lparr>current_date = today, highlight_index = 0\<rparr>,
      tasks_by_date = [],
      last_date = today,
      persist = file,
      lv_index = None\<rparr>"

definition app_init :: "date \<Rightarrow> disk \<Rightarrow> app" where
  "app_init today file = load_all_tasks (fresh_app today file)"

text \<open>The bucket of a date as a reader sees it: the list under the date's key, empty when
  the key is absent.\<close>

definition tasks_for :: "date \<Rightarrow> app \<Rightarrow> task list" where
  "tasks_for d s = dict_get (tasks_by_date s) (key_for_date d) []"

section \<open>The todo panel\<close>

text \<open>
  \<^verbatim>\<open>str.strip\<close> removes leading and trailing whitespace. A \<open>char\<close> stands for a code point
  below 256; Python's whitespace there is 9 to 13, 28 to 32, 133 and 160.
\<close>

definition isspace :: "char \<Rightarrow> bool" where
  "isspace c = ((of_char c :: nat) \<in> {9, 10, 11, 12, 13, 28, 29, 30, 31, 32, 133, 160})"

definition strip :: "string \<Rightarrow> string" where
  "strip s = rev (dropWhile isspace (rev (dropWhile isspace s)))"

text \<open>The expression \<^verbatim>\<open>max(0, min(self._highlight_index, len(tasks) - 1))\<close>.\<close>

definition clamp_index :: "int \<Rightarrow> nat \<Rightarrow> int" where
  "clamp_index h n = max 0 (min h (int n - 1))"

definition app_get_tasks :: "app \<Rightarrow> task list \<times> app" where
  "app_get_tasks s = get_tasks_for_date (current_date (todo s)) s"

definition app_add_task :: "write_outcome \<Rightarrow> string \<Rightarrow> app \<Rightarrow> app" where
  "app_add_task w txt s = add_task_for_date w (current_date (todo s)) txt s"

text \<open>
  \<^verbatim>\<open>refresh_list\<close> redraws the list view: \<^verbatim>\<open>lv.clear()\<close> leaves nothing highlighted, the
  tasks are fetched with \<^verbatim>\<open>app_get_tasks\<close> and appended as items, and with
  \<^verbatim>\<open>preserve_highlight\<close> and a non-empty list the clamped index is assigned to
  \<^verbatim>\<open>lv.index\<close>. The assignment goes to the list view, not to \<^verbatim>\<open>_highlight_index\<close>.
\<close>

definition refresh_list :: "bool \<Rightarrow> app \<Rightarrow> app" where
  "refresh_list preserve_highlight s =
     (let s1 = s\<lparr>lv_index := None\<rparr>;
          (tasks, s2) = app_get_tasks s1
      in if preserve_highlight \<and> tasks \<noteq> [] then
           s2\<lparr>lv_index := Some (clamp_index (highlight_index (todo s2)) (length tasks))\<rparr>
         else s2)"

definition set_date :: "date \<Rightarrow> app \<Rightarrow> app" where
  "set_date d s = refresh_list False (s\<lparr>todo := (todo s)\<lparr>current_date := d\<rparr>\<rparr>)"

definition on_input_submitted :: "write_outcome \<Rightarrow> string \<Rightarrow> app \<Rightarrow> app" where
  "on_input_submitted w val s =
     (let txt = strip val
      in if txt \<noteq> [] then refresh_list False (app_add_task w txt s) else s)"

text \<open>The handler receives the index the event resolves to, when that is an int.\<close>

definition on_list_view_highlighted :: "int option \<Rightarrow> app \<Rightarrow> app" where
  "on_list_view_highlighted idx s =
     (case idx of None \<Rightarrow> s | Some i \<Rightarrow> s\<lparr>todo := (todo s)\<lparr>highlight_index := i\<rparr>\<rparr>)"

text \<open>
  An assignment to \<^verbatim>\<open>lv.index\<close> makes the list view post \<^verbatim>\<open>ListView.Highlighted\<close>. The
  message is handled after the action that assigned the index has returned; the handler
  then finds the list view's index (\<^verbatim>\<open>event.list_view.index\<close>) and stores it when it is an
  int. \<open>highlighted_feedback\<close> is that delivery.
\<close>

definition highlighted_feedback :: "app \<Rightarrow> app" where
  "highlighted_feedback s = on_list_view_highlighted (lv_index s) s"

text \<open>
  \<^verbatim>\<open>app_get_tasks\<close> returns the list object held by the dictionary, so a mutation of
  \<^verbatim>\<open>tasks\<close> is a mutation of the bucket: the model stores the new list under the key.
\<close>

definition action_toggle_task :: "write_outcome \<Rightarrow> app \<Rightarrow> app" where
  "action_toggle_task w s =
     (let (tasks, s1) = app_get_tasks s
      in if tasks = [] then s1
         else
           let idx = nat (clamp_index (highlight_index (todo s1)) (length tasks));
               tasks' = tasks[idx := (tasks ! idx)\<lparr>task_done := \<not> task_done (tasks ! idx)\<rparr>];
               s2 = s1\<lparr>tasks_by_date :=
                      dict_set (key_for_date (current_date (todo s1))) tasks' (tasks_by_date s1)\<rparr>;
               s3 = refresh_list True s2
           in save_all_tasks w s3)"

definition action_delete_task :: "write_outcome \<Rightarrow> app \<Rightarrow> app" where
  "action_delete_task w s =
     (let (tasks, s1) = app_get_tasks s
      in if tasks = [] then s1
         else
           let idx = nat (clamp_index (highlight_index (todo s1)) (length tasks));
               tasks' = take idx tasks @ drop (Suc idx) tasks;
               s2 = s1\<lparr>tasks_by_date :=
                      dict_set (key_for_date (current_date (todo s1))) tasks' (tasks_by_date s1)\<rparr>;
               s3 = s2\<lparr>todo := (todo s2)\<lparr>highlight_index :=
                      clamp_index (highlight_index (todo s2)) (length tasks')\<rparr>\<rparr>;
               s4 = refresh_list True s3
           in save_all_tasks w s4)"

section \<open>The calendar table\<close>

text \<open>
  The month matrix comes from the standard library: \<^verbatim>\<open>calendar.monthcalendar\<close> with
  Monday as first weekday, which is \<^verbatim>\<open>monthdayscalendar\<close> over \<^verbatim>\<open>itermonthdays\<close>,
  \<^verbatim>\<open>monthrange\<close> and \<^verbatim>\<open>weekday\<close>, and \<^verbatim>\<open>date.weekday\<close> over \<^verbatim>\<open>date.toordinal\<close>.
  For a year outside 1 to 9999 \<^verbatim>\<open>calendar.weekday\<close> computes with the year
  \<^verbatim>\<open>2000 + year % 400\<close>, so the month matrix exists for every year; \<^verbatim>\<open>monthrange\<close>
  raises \<^verbatim>\<open>IllegalMonthError\<close> for a month outside 1 to 12.
\<close>

definition days_before_year :: "int \<Rightarrow> int" where
  "days_before_year y = (let p = y - 1 in p * 365 + p div 4 - p div 100 + p div 400)"

definition days_before_month :: "int \<Rightarrow> int \<Rightarrow> int" where
  "days_before_month y m = sum_list (map (days_in_month y) [1..m - 1])"

definition toordinal :: "date \<Rightarrow> int" where
  "toordinal d = days_before_year (dyear d) + days_before_month (dyear d) (dmonth d) + dday d"

definition date_weekday :: "date \<Rightarrow> int" where
  "date_weekday d = (toordinal d + 6) mod 7"

definition weekday :: "int \<Rightarrow> int \<Rightarrow> int \<Rightarrow> exn + int" where
  "weekday y m d =
     (let y' = (if 1 \<le> y \<and> y \<le> 9999 then y else 2000 + y mod 400)
      in case mk_date y' m d of Inl e \<Rightarrow> Inl e | Inr dt \<Rightarrow> Inr (date_weekday dt))"

definition monthrange :: "int \<Rightarrow> int \<Rightarrow> exn + (int \<times> int)" where
  "monthrange y m =
     (if \<not> (1 \<le> m \<and> m \<le> 12) then Inl IllegalMonthError
      else case weekday y m 1 of
             Inl e \<Rightarrow> Inl e
           | Inr day1 \<Rightarrow> Inr (day1, days_in_month y m))"

definition itermonthdays :: "int \<Rightarrow> int \<Rightarrow> exn + int list" where
  "itermonthdays y m =
     (case monthrange y m of
        Inl e \<Rightarrow> Inl e
      | Inr (day1, ndays) \<Rightarrow>
          Inr (replicate (nat ((day1 - 0) mod 7)) 0 @ [1..ndays]
               @ replicate (nat ((0 - day1 - ndays) mod 7)) 0))"

text \<open>\<^verbatim>\<open>[days[i:i+7] for i in range(0, len(days), 7)]\<close>\<close>

definition week_slices :: "'a list \<Rightarrow> 'a list list" where
  "week_slices days = map (\<lambda>i. take 7 (drop (7 * i) days)) [0 ..< (length days + 6) div 7]"

definition monthcalendar :: "int \<Rightarrow> int \<Rightarrow> exn + int list list" where
  "monthcalendar y m =
     (case itermonthdays y m of Inl e \<Rightarrow> Inl e | Inr days \<Rightarrow> Inr (week_slices days))"

text \<open>\<^verbatim>\<open>str\<close> of an int.\<close>

fun str_nat :: "nat \<Rightarrow> string" where
  "str_nat n = (if n < 10 then [digit n] else str_nat (n div 10) @ [digit (n mod 10)])"

definition py_str :: "int \<Rightarrow> string" where
  "py_str i = (if i < 0 then CHR ''-'' # str_nat (nat (- i)) else str_nat (nat i))"

text \<open>
  \<^verbatim>\<open>reload_month\<close>. The inner loop fills one row: the cells of the row so far, and the
  dictionary; \<^verbatim>\<open>dt.date\<close> may raise, and the dictionary keeps what was stored before.
  The outer loop hands each finished row to \<^verbatim>\<open>add_row\<close>.
\<close>

fun fill_row ::
  "int \<Rightarrow> int \<Rightarrow> nat \<Rightarrow> nat \<Rightarrow> int list \<Rightarrow> string list \<Rightarrow> (nat \<times> nat, date option) dict
   \<Rightarrow> exn option \<times> string list \<times> (nat \<times> nat, date option) dict" where
  "fill_row y m r c [] row_cells cells = (None, row_cells, cells)"
| "fill_row y m r c (day # week) row_cells cells =
     (if day = 0 then
        fill_row y m r (Suc c) week (row_cells @ ['''']) (dict_set (r, c) None cells)
      else
        case mk_date y m day of
          Inl e \<Rightarrow> (Some e, row_cells @ [py_str day], cells)
        | Inr d \<Rightarrow>
            fill_row y m r (Suc c) week (row_cells @ [py_str day]) (dict_set (r, c) (Some d) cells))"

fun fill_rows :: "nat \<Rightarrow> int list list \<Rightarrow> calendar_table \<Rightarrow> exn option \<times> calendar_table" where
  "fill_rows r [] cal = (None, cal)"
| "fill_rows r (week # weeks) cal =
     (case fill_row (year cal) (month cal) r 0 week [] (cell_to_date cal) of
        (Some e, row_cells, cells) \<Rightarrow> (Some e, cal\<lparr>cell_to_date := cells\<rparr>)
      | (None, row_cells, cells) \<Rightarrow>
          fill_rows (Suc r) weeks (cal\<lparr>cell_to_date := cells, rows := rows cal @ [row_cells]\<rparr>))"

definition reload_month :: "calendar_table \<Rightarrow> exn option \<times> calendar_table" where
  "reload_month cal =
     (let cal1 = cal\<lparr>rows := []\<rparr>
      in case monthcalendar (year cal1) (month cal1) of
           Inl e \<Rightarrow> (Some e, cal1)
         | Inr month_matrix \<Rightarrow>
             (case fill_rows 0 month_matrix (cal1\<lparr>cell_to_date := []\<rparr>) of
                (Some e, cal2) \<Rightarrow> (Some e, cal2)
              | (None, cal2) \<Rightarrow>
                  (None, cal2\<lparr>posted := posted cal2 @ [MonthChanged (year cal2) (month cal2)]\<rparr>)))"

definition action_prev_month :: "calendar_table \<Rightarrow> exn option \<times> calendar_table" where
  "action_prev_month cal =
     reload_month (if month cal = 1 then cal\<lparr>month := 12, year := year cal - 1\<rparr>
                   else cal\<lparr>month := month cal - 1\<rparr>)"

definition action_next_month :: "calendar_table \<Rightarrow> exn option \<times> calendar_table" where
  "action_next_month cal =
     reload_month (if month cal = 12 then cal\<lparr>month := 1, year := year cal + 1\<rparr>
                   else cal\<lparr>month := month cal + 1\<rparr>)"

text \<open>
  \<^verbatim>\<open>dt.date.today()\<close> is an input of the handlers that read the clock. One handler runs
  within one reading of the system date, so each takes a single \<open>today\<close>.
\<close>

definition action_today :: "date \<Rightarrow> calendar_table \<Rightarrow> exn option \<times> calendar_table" where
  "action_today today cal =
     (case reload_month (cal\<lparr>year := dyear today, month := dmonth today\<rparr>) of
        (Some e, cal1) \<Rightarrow> (Some e, cal1)
      | (None, cal1) \<Rightarrow> (None, cal1\<lparr>posted := posted cal1 @ [DateSelected today]\<rparr>))"

section \<open>The application: wiring and the rollover timer\<close>

definition on_calendar_table_date_selected :: "date \<Rightarrow> app \<Rightarrow> app" where
  "on_calendar_table_date_selected d s = set_date d s"

text \<open>\<^verbatim>\<open>CalTodoApp.action_today\<close>: both calls sit in \<^verbatim>\<open>try ... except Exception: pass\<close>.\<close>

definition app_action_today :: "date \<Rightarrow> app \<Rightarrow> app" where
  "app_action_today today s =
     (let s1 = (case action_today today (calendar s) of
                  (Some e, cal1) \<Rightarrow> s\<lparr>calendar := cal1\<rparr>
                | (None, cal1) \<Rightarrow> s\<lparr>calendar := cal1\<rparr>)
      in set_date today s1)"

definition tick_day_change :: "date \<Rightarrow> app \<Rightarrow> app" where
  "tick_day_change today s =
     (if today \<noteq> last_date s then
        let s0 = s\<lparr>last_date := today\<rparr>;
            s1 = (case action_today today (calendar s0) of
                    (Some e, cal1) \<Rightarrow> s0\<lparr>calendar := cal1\<rparr>
                  | (None, cal1) \<Rightarrow> s0\<lparr>calendar := cal1\<rparr>)
        in set_date today s1
      else s)"

section \<open>The grid a month matrix describes\<close>

text \<open>
  What one entry of the month matrix puts on the screen and in \<^verbatim>\<open>_cell_to_date\<close>, and
  the list of cells, row by row, that the two loops of \<^verbatim>\<open>reload_month\<close> store when no
  date is refused.
\<close>

text \<open>The days \<^verbatim>\<open>itermonthdays\<close> yields for a month whose first day has weekday \<open>w\<close>
  (Monday is 0) and which has \<open>n\<close> days.\<close>

definition month_days :: "int \<Rightarrow> int \<Rightarrow> int list" where
  "month_days w n = replicate (nat w) 0 @ [1..n] @ replicate (nat ((0 - w - n) mod 7)) 0"

definition cell_text :: "int \<Rightarrow> string" where
  "cell_text day = (if day = 0 then '''' else py_str day)"

definition cell_date :: "int \<Rightarrow> int \<Rightarrow> int \<Rightarrow> date option" where
  "cell_date y m day = (if day = 0 then None else Some \<lparr>dyear = y, dmonth = m, dday = day\<rparr>)"

fun row_cells :: "int \<Rightarrow> int \<Rightarrow> nat \<Rightarrow> nat \<Rightarrow> int list \<Rightarrow> (nat \<times> nat, date option) dict" where
  "row_cells y m r c [] = []"
| "row_cells y m r c (day # week) = ((r, c), cell_date y m day) # row_cells y m r (Suc c) week"

fun grid_cells :: "int \<Rightarrow> int \<Rightarrow> nat \<Rightarrow> int list list \<Rightarrow> (nat \<times> nat, date option) dict" where
  "grid_cells y m r [] = []"
| "grid_cells y m r (week # weeks) = row_cells y m r 0 week @ grid_cells y m (Suc r) weeks"

section \<open>Sequences of edits\<close>

text \<open>
  What a user can do to the bucket of the selected date: add a task (the panel's
  \<^verbatim>\<open>app_add_task\<close>), toggle or delete the highlighted task, or move the highlight. Each
  edit that saves carries the outcome of its write.
\<close>

datatype edit =
  Add write_outcome string | Toggle write_outcome | Delete write_outcome | Highlight int

fun apply_edit :: "edit \<Rightarrow> app \<Rightarrow> app" where
  "apply_edit (Add w txt) s = app_add_task w txt s"
| "apply_edit (Toggle w) s = action_toggle_task w s"
| "apply_edit (Delete w) s = action_delete_task w s"
| "apply_edit (Highlight i) s = on_list_view_highlighted (Some i) s"

text \<open>The texts a sequence of edits adds, in the order it adds them.\<close>

fun added_texts :: "edit list \<Rightarrow> json list" where
  "added_texts [] = []"
| "added_texts (Add w txt # es) = JStr txt # added_texts es"
| "added_texts (e # es) = added_texts es"

section \<open>Example states\<close>

definition march15 :: date where
  "march15 = \<lparr>dyear = 2024, dmonth = 3, dday = 15\<rparr>"

definition march16 :: date where
  "march16 = \<lparr>dyear = 2024, dmonth = 3, dday = 16\<rparr>"

definition milk :: task where
  "milk = \<lparr>task_text = JStr ''buy milk'', task_done = False\<rparr>"

definition bread :: task where
  "bread = \<lparr>task_text = JStr ''bread'', task_done = True\<rparr>"

definition eggs :: task where
  "eggs = \<lparr>task_text = JStr ''eggs'', task_done = False\<rparr>"

text \<open>A calendar table on a month, not drawn yet.\<close>

definition calendar_at :: "int \<Rightarrow> int \<Rightarrow> calendar_table" where
  "calendar_at y m = \<lparr>year = y, month = m, cell_to_date = [], rows = [], posted = []\<rparr>"

text \<open>A running application on 15 March 2024 with the given task dictionary and
  highlight index; the calendar has not been drawn yet.\<close>

definition app_with :: "(string, task list) dict \<Rightarrow> int \<Rightarrow> app" where
  "app_with m h =
     \<lparr>calendar = \<lparr>year = 2024, month = 3, cell_to_date = [], rows = [], posted = []\<rparr>,
      todo = \<lparr>current_date = march15, highlight_index = h\<rparr>,
      tasks_by_date = m,
      last_date = march15,
      persist = No_file,
      lv_index = None\<rparr>"

section \<open>Dictionaries: basic facts\<close>

lemma dict_set_fresh: "k \<notin> fst ` set d \<Longrightarrow> dict_set k v d = d @ [(k, v)]"
  by (induction d) auto

lemma map_of_dict_set: "map_of (dict_set k v d) = (map_of d)(k \<mapsto> v)"
  by (induction d) (auto simp: fun_eq_iff)

lemma keys_dict_set:
  "map fst (dict_set k v d) = (if k \<in> fst ` set d then map fst d else map fst d @ [k])"
  by (induction d) auto

lemma distinct_dict_set: "distinct (map fst d) \<Longrightarrow> distinct (map fst (dict_set k v d))"
  by (simp add: keys_dict_set)



lemma dict_get_dict_set:
  "dict_get (dict_set k v m) k' dflt = (if k' = k then v else dict_get m k' dflt)"
  by (simp add: dict_get_def map_of_dict_set)

lemma dict_set_twice: "dict_set k v (dict_set k v' m) = dict_set k v m"
  by (induction m) auto

lemma dict_set_same: "map_of m k = Some v \<Longrightarrow> dict_set k v m = m"
  by (induction m) (auto split: if_splits)

section \<open>Saving and loading\<close>










lemma tasks_of_items_objs: "tasks_of_items (map JObj es) = Inr (map task_of_entry es)"
  by (induction es) (simp_all add: task_of_item_def)

lemma load_items_objs:
  "distinct (map fst acc @ map fst xs) \<Longrightarrow>
   load_items (map (\<lambda>(k, es). (k, JArr (map JObj es))) xs) acc
     = Inr (acc @ map (\<lambda>(k, es). (k, map task_of_entry es)) xs)"
proof (induction xs arbitrary: acc)
  case Nil
  then show ?case by simp
next
  case (Cons x xs)
  obtain k es where x: "x = (k, es)" by (cases x)
  from Cons.prems x have fresh: "k \<notin> fst ` set acc" by auto
  from Cons.prems x
  have "distinct (map fst (acc @ [(k, map task_of_entry es)]) @ map fst xs)" by simp
  from Cons.IH [OF this] show ?case
    using fresh x by (simp add: dict_set_fresh py_iter_def tasks_of_items_objs)
qed

text \<open>
  Claim C8. Loading is tolerant. An entry (a JSON object) without \<^verbatim>\<open>"done"\<close> becomes a
  task that is not done, and an entry without \<^verbatim>\<open>"text"\<close> becomes a task whose text is
  the empty string; neither is rejected. A document that maps distinct keys to lists of
  entries loads, at startup, as the same keys in the same order with each entry turned
  into its task. At startup a missing file, a file that cannot be read or parsed, and
  any exception inside the \<^verbatim>\<open>try\<close> of \<^verbatim>\<open>_load_all_tasks\<close> leave the empty dictionary:
  \<open>app_init\<close> returns a state, never an exception.
\<close>

theorem tolerant_load:
  "(map_of e ''done'' = None \<longrightarrow>
      task_of_item (JObj e) = Inr (task_of_entry e) \<and> task_done (task_of_entry e) = False)
 \<and> (map_of e ''text'' = None \<longrightarrow>
      task_of_item (JObj e) = Inr (task_of_entry e) \<and> task_text (task_of_entry e) = JStr '''')
 \<and> (distinct (map fst xs) \<longrightarrow>
      tasks_by_date (app_init today (Document (JObj (map (\<lambda>(k, es). (k, JArr (map JObj es))) xs))))
        = map (\<lambda>(k, es). (k, map task_of_entry es)) xs)
 \<and> tasks_by_date (app_init today No_file) = []
 \<and> tasks_by_date (app_init today Unreadable) = []
 \<and> (load_try (fresh_app today file) = Inl err \<longrightarrow> tasks_by_date (app_init today file) = [])"
proof -
  have "tasks_by_date (app_init today (Document (JObj (map (\<lambda>(k, es). (k, JArr (map JObj es))) xs))))
          = map (\<lambda>(k, es). (k, map task_of_entry es)) xs" if "distinct (map fst xs)"
    using load_items_objs [of "[]" xs] that
    by (simp add: app_init_def load_all_tasks_def load_try_def fresh_app_def)
  then show ?thesis
    by (simp add: task_of_item_def task_of_entry_def dict_get_def app_init_def load_all_tasks_def
        load_try_def fresh_app_def)
qed

theorem tolerant_load_witness:
  "map_of [(''text'', JStr ''buy milk'')] ''done'' = None
 \<and> task_of_item (JObj [(''text'', JStr ''buy milk'')]) = Inr milk
 \<and> map_of [(''done'', JInt 1)] ''text'' = None
 \<and> task_of_item (JObj [(''done'', JInt 1)]) = Inr \<lparr>task_text = JStr '''', task_done = True\<rparr>
 \<and> distinct (map fst [(''2024-03-15'', [[(''text'', JStr ''buy milk'')], [(''done'', JInt 1)]])])
 \<and> tasks_by_date (app_init march15 (Document (JObj
       [(''2024-03-15'', JArr [JObj [(''text'', JStr ''buy milk'')], JObj [(''done'', JInt 1)]])])))
     = [(''2024-03-15'', [milk, \<lparr>task_text = JStr '''', task_done = True\<rparr>])]
 \<and> load_try (fresh_app march15 (Document (JArr [JStr ''buy milk'']))) = Inl AttributeError
 \<and> tasks_by_date (app_init march15 (Document (JArr [JStr ''buy milk'']))) = []
 \<and> load_try (fresh_app march15 (Document (JObj [(''2024-03-15'', JInt 3)]))) = Inl TypeError
 \<and> tasks_by_date (app_init march15 (Document (JObj [(''2024-03-15'', JInt 3)]))) = []"
  using
    tolerant_load [of "[(''text'', JStr ''buy milk'')]"
      "[(''2024-03-15'', [[(''text'', JStr ''buy milk'')], [(''done'', JInt 1)]])]" march15
      "Document (JArr [JStr ''buy milk''])" AttributeError]
    tolerant_load [of "[(''done'', JInt 1)]" "[]" march15
      "Document (JObj [(''2024-03-15'', JInt 3)])" TypeError]
  by (simp add: task_of_item_def task_of_entry_def dict_get_def milk_def load_try_def
      fresh_app_def py_iter_def)

section \<open>The task store and the panel\<close>

lemma save_all_tasks_eq:
  "save_all_tasks w s =
     s\<lparr>persist := (case w of Write_ok \<Rightarrow> Document (serializable (tasks_by_date s))
                     | Write_fails d \<Rightarrow> d)\<rparr>"
  by (cases w) (simp_all add: save_all_tasks_def save_try_def)

lemma setdefault_eq:
  "setdefault k [] m = (dict_get m k [], if map_of m k = None then dict_set k [] m else m)"
  by (simp add: setdefault_def dict_get_def split: option.splits)

lemma get_tasks_for_date_eq:
  "get_tasks_for_date d s =
     (tasks_for d s,
      s\<lparr>tasks_by_date := (if map_of (tasks_by_date s) (key_for_date d) = None
                           then dict_set (key_for_date d) [] (tasks_by_date s)
                           else tasks_by_date s)\<rparr>)"
  by (simp add: get_tasks_for_date_def setdefault_eq tasks_for_def)

lemma tasks_for_lv_index [simp]: "tasks_for d (s\<lparr>lv_index := x\<rparr>) = tasks_for d s"
  by (simp add: tasks_for_def)

lemma app_get_tasks_eq:
  "app_get_tasks s =
     (tasks_for (current_date (todo s)) s,
      s\<lparr>tasks_by_date := (if map_of (tasks_by_date s) (key_for_date (current_date (todo s))) = None
                           then dict_set (key_for_date (current_date (todo s))) [] (tasks_by_date s)
                           else tasks_by_date s)\<rparr>)"
  by (simp add: app_get_tasks_def get_tasks_for_date_eq)

lemma refresh_list_eq:
  "refresh_list p s =
     s\<lparr>tasks_by_date := (if map_of (tasks_by_date s) (key_for_date (current_date (todo s))) = None
                           then dict_set (key_for_date (current_date (todo s))) [] (tasks_by_date s)
                           else tasks_by_date s),
       lv_index := (if p \<and> tasks_for (current_date (todo s)) s \<noteq> []
                    then Some (clamp_index (highlight_index (todo s))
                                 (length (tasks_for (current_date (todo s)) s)))
                    else None)\<rparr>"
  by (simp add: refresh_list_def app_get_tasks_eq Let_def)

lemma add_task_for_date_eq:
  "add_task_for_date w d t s =
     save_all_tasks w
       (s\<lparr>tasks_by_date := dict_set (key_for_date d)
            (tasks_for d s @ [\<lparr>task_text = JStr t, task_done = False\<rparr>]) (tasks_by_date s)\<rparr>)"
  by (simp add: add_task_for_date_def get_tasks_for_date_eq dict_set_twice)

lemma action_toggle_task_eq:
  "action_toggle_task w s =
     (let d = current_date (todo s); b = tasks_for d s;
          i = nat (clamp_index (highlight_index (todo s)) (length b))
      in if b = [] then snd (app_get_tasks s)
         else save_all_tasks w
                (s\<lparr>tasks_by_date := dict_set (key_for_date d)
                     (b[i := (b ! i)\<lparr>task_done := \<not> task_done (b ! i)\<rparr>]) (tasks_by_date s),
                   lv_index := Some (clamp_index (highlight_index (todo s)) (length b))\<rparr>))"
proof (cases "tasks_for (current_date (todo s)) s = []")
  case True
  then show ?thesis by (simp add: action_toggle_task_def app_get_tasks_eq Let_def)
next
  case False
  from False obtain y
    where present: "map_of (tasks_by_date s) (key_for_date (current_date (todo s))) = Some y"
    by (auto simp: tasks_for_def dict_get_def split: option.splits)
  show ?thesis
    using False present
    by (cases w)
       (simp_all add: action_toggle_task_def app_get_tasks_eq Let_def refresh_list_eq
        map_of_dict_set dict_set_twice tasks_for_def dict_get_dict_set save_all_tasks_def
        save_try_def)
qed

lemma clamp_index_bounds: "0 < n \<Longrightarrow> 0 \<le> clamp_index h n \<and> clamp_index h n \<le> int n - 1"
  by (simp add: clamp_index_def)

lemma clamp_index_lt: "b \<noteq> [] \<Longrightarrow> nat (clamp_index h (length b)) < length b"
  using clamp_index_bounds [of "length b" h] by (cases b) auto

lemma clamp_index_idem: "clamp_index (clamp_index h n) n = clamp_index h n"
  by (simp add: clamp_index_def)

lemma length_delete_at: "i < length b \<Longrightarrow> length (take i b @ drop (Suc i) b) = length b - 1"
  by auto

lemma action_delete_task_eq:
  "action_delete_task w s =
     (let d = current_date (todo s); b = tasks_for d s;
          i = nat (clamp_index (highlight_index (todo s)) (length b))
      in if b = [] then snd (app_get_tasks s)
         else save_all_tasks w
                (s\<lparr>tasks_by_date := dict_set (key_for_date d)
                     (take i b @ drop (Suc i) b) (tasks_by_date s),
                   todo := (todo s)\<lparr>highlight_index :=
                     clamp_index (highlight_index (todo s)) (length b - 1)\<rparr>,
                   lv_index := (if length b - 1 = 0 then None
                                else Some (clamp_index (highlight_index (todo s)) (length b - 1)))\<rparr>))"
proof (cases "tasks_for (current_date (todo s)) s = []")
  case True
  then show ?thesis by (simp add: action_delete_task_def app_get_tasks_eq Let_def)
next
  case False
  let ?k = "key_for_date (current_date (todo s))"
  let ?h = "highlight_index (todo s)"
  let ?b = "tasks_for (current_date (todo s)) s"
  let ?i = "nat (clamp_index ?h (length ?b))"
  define t where "t = take ?i ?b @ drop (Suc ?i) ?b"
  from False obtain y where present: "map_of (tasks_by_date s) ?k = Some y"
    by (auto simp: tasks_for_def dict_get_def split: option.splits)
  have len: "length t = length ?b - 1"
    unfolding t_def using clamp_index_lt [OF False] by (rule length_delete_at)
  have empty: "(t = []) = (length ?b - 1 = 0)"
    using len length_0_conv [of t] by simp
  have got: "app_get_tasks s = (?b, s)"
    using present by (simp add: app_get_tasks_eq)
  let ?s3 = "s\<lparr>tasks_by_date := dict_set ?k t (tasks_by_date s),
               todo := (todo s)\<lparr>highlight_index := clamp_index ?h (length t)\<rparr>\<rparr>"
  have run: "action_delete_task w s = save_all_tasks w (refresh_list True ?s3)"
    using False by (simp add: action_delete_task_def got Let_def t_def)
  have redraw: "refresh_list True ?s3 =
      ?s3\<lparr>lv_index := (if t = [] then None
                         else Some (clamp_index (clamp_index ?h (length t)) (length t)))\<rparr>"
    by (simp add: refresh_list_eq tasks_for_def dict_get_dict_set map_of_dict_set)
  have "action_delete_task w s =
      save_all_tasks w
        (s\<lparr>tasks_by_date := dict_set ?k t (tasks_by_date s),
           todo := (todo s)\<lparr>highlight_index := clamp_index ?h (length ?b - 1)\<rparr>,
           lv_index := (if length ?b - 1 = 0 then None
                        else Some (clamp_index ?h (length ?b - 1)))\<rparr>)"
    by (simp only: run redraw) (simp add: empty len clamp_index_idem)
  then show ?thesis using False unfolding t_def by (simp add: Let_def)
qed

lemma tasks_for_present:
  "tasks_for d s \<noteq> [] \<Longrightarrow> map_of (tasks_by_date s) (key_for_date d) = Some (tasks_for d s)"
  by (auto simp: tasks_for_def dict_get_def split: option.splits)

lemma tasks_for_update:
  "tasks_for d (s\<lparr>tasks_by_date := dict_set (key_for_date d') b (tasks_by_date s)\<rparr>)
     = (if key_for_date d = key_for_date d' then b else tasks_for d s)"
  by (simp add: tasks_for_def dict_get_dict_set)

lemma tasks_by_date_save [simp]: "tasks_by_date (save_all_tasks w s) = tasks_by_date s"
  by (simp add: save_all_tasks_eq)

lemma todo_save [simp]: "todo (save_all_tasks w s) = todo s"
  by (simp add: save_all_tasks_eq)

lemma tasks_for_save [simp]: "tasks_for d (save_all_tasks w s) = tasks_for d s"
  by (simp add: tasks_for_def)

lemma tasks_for_created [simp]: "tasks_for d (snd (app_get_tasks s)) = tasks_for d s"
  by (auto simp: app_get_tasks_eq tasks_for_def dict_get_def map_of_dict_set split: option.splits)

lemma todo_created [simp]: "todo (snd (app_get_tasks s)) = todo s"
  by (simp add: app_get_tasks_eq)

lemma map_of_created:
  "k \<noteq> key_for_date (current_date (todo s)) \<Longrightarrow>
   map_of (tasks_by_date (snd (app_get_tasks s))) k = map_of (tasks_by_date s) k"
  by (simp add: app_get_tasks_eq map_of_dict_set)

lemma tasks_for_refresh [simp]: "tasks_for d (refresh_list p s) = tasks_for d s"
  by (auto simp: refresh_list_eq tasks_for_def dict_get_def map_of_dict_set split: option.splits)

lemma todo_refresh [simp]: "todo (refresh_list p s) = todo s"
  by (simp add: refresh_list_eq)

lemma map_of_refresh:
  "k \<noteq> key_for_date (current_date (todo s)) \<Longrightarrow>
   map_of (tasks_by_date (refresh_list p s)) k = map_of (tasks_by_date s) k"
  by (simp add: refresh_list_eq map_of_dict_set)

lemma toggle_tasks_by_date:
  "tasks_for (current_date (todo s)) s \<noteq> [] \<Longrightarrow>
   tasks_by_date (action_toggle_task w s) =
     dict_set (key_for_date (current_date (todo s)))
       ((tasks_for (current_date (todo s)) s)
          [nat (clamp_index (highlight_index (todo s)) (length (tasks_for (current_date (todo s)) s)))
             := (tasks_for (current_date (todo s)) s
                   ! nat (clamp_index (highlight_index (todo s))
                            (length (tasks_for (current_date (todo s)) s))))
                \<lparr>task_done := \<not> task_done (tasks_for (current_date (todo s)) s
                   ! nat (clamp_index (highlight_index (todo s))
                            (length (tasks_for (current_date (todo s)) s))))\<rparr>])
       (tasks_by_date s)"
  by (simp add: action_toggle_task_eq Let_def)

lemma toggle_todo: "todo (action_toggle_task w s) = todo s"
  by (simp add: action_toggle_task_eq Let_def)

lemma toggle_bucket:
  "tasks_for (current_date (todo s)) (action_toggle_task w s) =
     (let b = tasks_for (current_date (todo s)) s;
          i = nat (clamp_index (highlight_index (todo s)) (length b))
      in if b = [] then [] else b[i := (b ! i)\<lparr>task_done := \<not> task_done (b ! i)\<rparr>])"
  by (simp add: action_toggle_task_eq Let_def tasks_for_update)

lemma delete_bucket:
  "tasks_for (current_date (todo s)) (action_delete_task w s) =
     (let b = tasks_for (current_date (todo s)) s;
          i = nat (clamp_index (highlight_index (todo s)) (length b))
      in if b = [] then [] else take i b @ drop (Suc i) b)"
proof (cases "tasks_for (current_date (todo s)) s = []")
  case True
  then show ?thesis by (simp add: action_delete_task_eq Let_def)
next
  case False
  then show ?thesis
    by (simp add: action_delete_task_eq Let_def) (simp add: tasks_for_def dict_get_dict_set)
qed

lemma add_bucket:
  "tasks_for d (add_task_for_date w d t s)
     = tasks_for d s @ [\<lparr>task_text = JStr t, task_done = False\<rparr>]"
  by (simp add: add_task_for_date_eq tasks_for_update)

lemma toggle_frame:
  "k \<noteq> key_for_date (current_date (todo s)) \<Longrightarrow>
   map_of (tasks_by_date (action_toggle_task w s)) k = map_of (tasks_by_date s) k"
  by (simp add: action_toggle_task_eq Let_def map_of_dict_set map_of_created)

lemma delete_frame:
  "k \<noteq> key_for_date (current_date (todo s)) \<Longrightarrow>
   map_of (tasks_by_date (action_delete_task w s)) k = map_of (tasks_by_date s) k"
  by (simp add: action_delete_task_eq Let_def map_of_dict_set map_of_created)

lemma add_frame:
  "k \<noteq> key_for_date d \<Longrightarrow>
   map_of (tasks_by_date (add_task_for_date w d t s)) k = map_of (tasks_by_date s) k"
  by (simp add: add_task_for_date_eq map_of_dict_set)

lemma k15: "key_for_date march15 = ''2024-03-15''"
  by (simp add: key_for_date_def isoformat_def march15_def pad4_def pad2_def digit_def)

lemma k16: "key_for_date march16 = ''2024-03-16''"
  by (simp add: key_for_date_def isoformat_def march16_def pad4_def pad2_def digit_def)

lemmas ev = app_with_def calendar_at_def k15 k16 tasks_for_def dict_get_def clamp_index_def
  action_toggle_task_def action_delete_task_def add_task_for_date_def app_add_task_def
  app_get_tasks_def get_tasks_for_date_def setdefault_def refresh_list_def set_date_def
  save_all_tasks_def save_try_def on_input_submitted_def Let_def milk_def bread_def eggs_def

subsection \<open>Adding a task\<close>

lemma current_date_add [simp]:
  "current_date (todo (add_task_for_date w d t s)) = current_date (todo s)"
  by (simp add: add_task_for_date_eq)

text \<open>
  Claim C3, as stated, fails. The store-level \<^verbatim>\<open>add_task_for_date\<close> does not look at the
  text: handed two spaces, which trim to the empty string, it appends a task to the
  bucket of 15 March in an empty store.
\<close>

theorem store_add_blank_counterexample:
  "strip ''  '' = []
   \<and> tasks_by_date (add_task_for_date Write_ok march15 ''  '' (app_with [] 0))
       = [(''2024-03-15'', [\<lparr>task_text = JStr ''  '', task_done = False\<rparr>])]
   \<and> tasks_by_date (app_with [] 0) = []"
  by (simp add: ev strip_def isspace_def)

text \<open>
  Claim C3, amended. The check for blank text is the caller's. The panel's submit handler
  \<^verbatim>\<open>on_input_submitted\<close> trims the input; when nothing is left it changes nothing, and
  otherwise it appends exactly one task, holding the trimmed text and not done, at the end
  of the selected date's bucket, and the dictionary gives every other key what it gave
  before. The store-level \<^verbatim>\<open>add_task_for_date\<close> appends one task with the text as given
  and \<^verbatim>\<open>done = False\<close> at the end of the date's bucket, whatever the text, and leaves
  every other key as it was.
\<close>

theorem submit_adds_trimmed_text:
  "(strip v = [] \<longrightarrow> on_input_submitted w v s = s)
 \<and> (strip v \<noteq> [] \<longrightarrow>
      tasks_for (current_date (todo s)) (on_input_submitted w v s)
        = tasks_for (current_date (todo s)) s @ [\<lparr>task_text = JStr (strip v), task_done = False\<rparr>]
    \<and> (\<forall>k. k \<noteq> key_for_date (current_date (todo s)) \<longrightarrow>
          map_of (tasks_by_date (on_input_submitted w v s)) k = map_of (tasks_by_date s) k))
 \<and> tasks_for d (add_task_for_date w d t s)
      = tasks_for d s @ [\<lparr>task_text = JStr t, task_done = False\<rparr>]
 \<and> (\<forall>k. k \<noteq> key_for_date d \<longrightarrow>
      map_of (tasks_by_date (add_task_for_date w d t s)) k = map_of (tasks_by_date s) k)"
  by (simp add: on_input_submitted_def Let_def app_add_task_def add_bucket add_frame map_of_refresh)

theorem submit_adds_trimmed_text_witness:
  "strip ''   '' = []
   \<and> on_input_submitted Write_ok ''   '' (app_with [(''2024-03-15'', [milk]), (''2024-03-16'', [bread])] 0)
       = app_with [(''2024-03-15'', [milk]), (''2024-03-16'', [bread])] 0
   \<and> strip '' eggs '' \<noteq> []
   \<and> tasks_for march15
        (on_input_submitted Write_ok '' eggs '' (app_with [(''2024-03-15'', [milk]), (''2024-03-16'', [bread])] 0))
       = [milk, eggs]
   \<and> ''2024-03-16'' \<noteq> key_for_date march15
   \<and> map_of (tasks_by_date
        (on_input_submitted Write_ok '' eggs '' (app_with [(''2024-03-15'', [milk]), (''2024-03-16'', [bread])] 0)))
        ''2024-03-16'' = Some [bread]
   \<and> tasks_for march15
        (add_task_for_date Write_ok march15 ''eggs'' (app_with [(''2024-03-15'', [milk]), (''2024-03-16'', [bread])] 0))
       = [milk, eggs]"
  using submit_adds_trimmed_text
    [of "''   ''" Write_ok "app_with [(''2024-03-15'', [milk]), (''2024-03-16'', [bread])] 0" march15 "''eggs''"]
    submit_adds_trimmed_text
    [of "'' eggs ''" Write_ok "app_with [(''2024-03-15'', [milk]), (''2024-03-16'', [bread])] 0" march15 "''eggs''"]
  by (simp add: ev strip_def isspace_def)

subsection \<open>Order of the tasks\<close>

lemma current_date_edit [simp]: "current_date (todo (apply_edit e s)) = current_date (todo s)"
  by (cases e)
     (simp_all add: app_add_task_def add_task_for_date_eq action_toggle_task_eq
        action_delete_task_eq Let_def on_list_view_highlighted_def)

lemma subseq_delete_at: "subseq (take i xs @ drop (Suc i) xs) xs"
proof (cases "i < length xs")
  case True
  then have "xs = take i xs @ xs ! i # drop (Suc i) xs" by (rule id_take_nth_drop)
  moreover have "subseq (take i xs @ drop (Suc i) xs) (take i xs @ xs ! i # drop (Suc i) xs)"
    by (intro list_emb_append_mono list_emb_Cons) simp_all
  ultimately show ?thesis by simp
next
  case False
  then show ?thesis by simp
qed

lemma map_text_toggle: "map task_text (b[i := (b ! i)\<lparr>task_done := x\<rparr>]) = map task_text b"
  by (induction b arbitrary: i) (auto split: nat.splits)

lemma texts_edit:
  "subseq (map task_text (tasks_for (current_date (todo s)) (apply_edit e s)))
          (map task_text (tasks_for (current_date (todo s)) s) @ added_texts [e])"
proof (cases e)
  case (Add w t)
  then show ?thesis by (simp add: app_add_task_def add_bucket)
next
  case (Toggle w)
  then show ?thesis by (simp add: toggle_bucket Let_def map_text_toggle)
next
  case (Delete w)
  have "subseq (map task_text (take i b @ drop (Suc i) b)) (map task_text b)"
    for i and b :: "task list"
    using subseq_delete_at [of i b] by (rule subseq_map)
  then show ?thesis using Delete by (simp add: delete_bucket Let_def del: map_append)
next
  case (Highlight i)
  then show ?thesis by (simp add: on_list_view_highlighted_def tasks_for_def)
qed

lemma added_texts_Cons: "added_texts (e # es) = added_texts [e] @ added_texts es"
  by (cases e) simp_all

lemma texts_edits:
  "subseq (map task_text (tasks_for (current_date (todo s)) (fold apply_edit es s)))
          (map task_text (tasks_for (current_date (todo s)) s) @ added_texts es)"
proof (induction es arbitrary: s)
  case Nil
  then show ?case by simp
next
  case (Cons e es)
  let ?d = "current_date (todo s)"
  have "subseq (map task_text (tasks_for ?d (fold apply_edit es (apply_edit e s))))
               (map task_text (tasks_for ?d (apply_edit e s)) @ added_texts es)"
    using Cons.IH [of "apply_edit e s"] by simp
  also have "subseq \<dots> ((map task_text (tasks_for ?d s) @ added_texts [e]) @ added_texts es)"
    using texts_edit [of s e] by (intro list_emb_append_mono) simp_all
  finally show ?case by (simp add: added_texts_Cons [of e es])
qed

text \<open>
  Claim C7. On the bucket of the selected date, a toggle flips the done flag of the task at
  the clamped index and changes nothing else (same length, same tasks at every other
  position); a delete removes the task at the clamped index and keeps the tasks before and
  after it in their order; an add appends at the end. On an empty bucket toggle and delete
  leave it empty. None of the three changes what the dictionary gives for another key.
  Over any sequence of adds, toggles, deletes and highlight moves, the texts of the
  bucket at the end are, in order, a subsequence of the texts at the start followed by the
  added texts in the order they were added: no edit reorders tasks.
\<close>

theorem edits_keep_order:
  "tasks_for (current_date (todo s)) (action_toggle_task w s) =
     (let b = tasks_for (current_date (todo s)) s;
          i = nat (clamp_index (highlight_index (todo s)) (length b))
      in if b = [] then [] else b[i := (b ! i)\<lparr>task_done := \<not> task_done (b ! i)\<rparr>])
 \<and> tasks_for (current_date (todo s)) (action_delete_task w s) =
     (let b = tasks_for (current_date (todo s)) s;
          i = nat (clamp_index (highlight_index (todo s)) (length b))
      in if b = [] then [] else take i b @ drop (Suc i) b)
 \<and> tasks_for d (add_task_for_date w d t s)
     = tasks_for d s @ [\<lparr>task_text = JStr t, task_done = False\<rparr>]
 \<and> (\<forall>k. k \<noteq> key_for_date (current_date (todo s)) \<longrightarrow>
        map_of (tasks_by_date (action_toggle_task w s)) k = map_of (tasks_by_date s) k
      \<and> map_of (tasks_by_date (action_delete_task w s)) k = map_of (tasks_by_date s) k)
 \<and> (\<forall>k. k \<noteq> key_for_date d \<longrightarrow>
        map_of (tasks_by_date (add_task_for_date w d t s)) k = map_of (tasks_by_date s) k)
 \<and> subseq (map task_text (tasks_for (current_date (todo s)) (fold apply_edit es s)))
           (map task_text (tasks_for (current_date (todo s)) s) @ added_texts es)"
  using toggle_bucket [of s w] delete_bucket [of s w] add_bucket [of d w t s] texts_edits [of s es]
  by (simp add: toggle_frame delete_frame add_frame)

theorem edits_keep_order_witness:
  "tasks_for march15 (action_toggle_task Write_ok (app_with [(''2024-03-15'', [milk, bread, eggs]), (''2024-03-16'', [bread])] 1))
     = [milk, bread\<lparr>task_done := False\<rparr>, eggs]
 \<and> tasks_for march15 (action_delete_task Write_ok (app_with [(''2024-03-15'', [milk, bread, eggs]), (''2024-03-16'', [bread])] 1))
     = [milk, eggs]
 \<and> tasks_for march15 (add_task_for_date Write_ok march15 ''tea'' (app_with [(''2024-03-15'', [milk, bread, eggs]), (''2024-03-16'', [bread])] 1))
     = [milk, bread, eggs, \<lparr>task_text = JStr ''tea'', task_done = False\<rparr>]
 \<and> ''2024-03-16'' \<noteq> key_for_date march15
 \<and> map_of (tasks_by_date (action_toggle_task Write_ok (app_with [(''2024-03-15'', [milk, bread, eggs]), (''2024-03-16'', [bread])] 1))) ''2024-03-16'' = Some [bread]
 \<and> map_of (tasks_by_date (action_delete_task Write_ok (app_with [(''2024-03-15'', [milk, bread, eggs]), (''2024-03-16'', [bread])] 1))) ''2024-03-16'' = Some [bread]
 \<and> map_of (tasks_by_date (add_task_for_date Write_ok march15 ''tea'' (app_with [(''2024-03-15'', [milk, bread, eggs]), (''2024-03-16'', [bread])] 1))) ''2024-03-16'' = Some [bread]
 \<and> map task_text (tasks_for march15 (fold apply_edit [Add Write_ok ''tea'', Highlight 0, Delete Write_ok, Toggle Write_ok]
        (app_with [(''2024-03-15'', [milk, bread, eggs]), (''2024-03-16'', [bread])] 1)))
     = [JStr ''bread'', JStr ''eggs'', JStr ''tea'']
 \<and> subseq [JStr ''bread'', JStr ''eggs'', JStr ''tea''] [JStr ''buy milk'', JStr ''bread'', JStr ''eggs'', JStr ''tea'']"
  using edits_keep_order [of "app_with [(''2024-03-15'', [milk, bread, eggs]), (''2024-03-16'', [bread])] 1"
      Write_ok march15 "''tea''" "[Add Write_ok ''tea'', Highlight 0, Delete Write_ok, Toggle Write_ok]"]
  by (simp add: ev on_list_view_highlighted_def)

subsection \<open>A write that fails\<close>

text \<open>
  Claim C9. Let the write of the save step fail: the \<^verbatim>\<open>try\<close> of \<^verbatim>\<open>save_all_tasks\<close>
  raises \<^verbatim>\<open>OSError\<close>. The handler swallows it, so \<^verbatim>\<open>save_all_tasks\<close> returns, with
  nothing changed but the file. Add, toggle and delete then return too, and the task
  dictionary (and the panel) they leave is the one they leave when the write succeeds:
  the added task is at the end of its bucket, the toggled task is flipped, the deleted
  task is gone. Nothing is rolled back.
\<close>

theorem save_failure_keeps_mutation:
  "fst (save_try (Write_fails f) s) = Some OSError
 \<and> save_all_tasks (Write_fails f) s = s\<lparr>persist := f\<rparr>
 \<and> tasks_by_date (add_task_for_date (Write_fails f) d t s)
     = dict_set (key_for_date d) (tasks_for d s @ [\<lparr>task_text = JStr t, task_done = False\<rparr>])
         (tasks_by_date s)
 \<and> tasks_by_date (add_task_for_date (Write_fails f) d t s)
     = tasks_by_date (add_task_for_date Write_ok d t s)
 \<and> tasks_for (current_date (todo s)) (action_toggle_task (Write_fails f) s) =
     (let b = tasks_for (current_date (todo s)) s;
          i = nat (clamp_index (highlight_index (todo s)) (length b))
      in if b = [] then [] else b[i := (b ! i)\<lparr>task_done := \<not> task_done (b ! i)\<rparr>])
 \<and> tasks_by_date (action_toggle_task (Write_fails f) s) = tasks_by_date (action_toggle_task Write_ok s)
 \<and> todo (action_toggle_task (Write_fails f) s) = todo (action_toggle_task Write_ok s)
 \<and> tasks_for (current_date (todo s)) (action_delete_task (Write_fails f) s) =
     (let b = tasks_for (current_date (todo s)) s;
          i = nat (clamp_index (highlight_index (todo s)) (length b))
      in if b = [] then [] else take i b @ drop (Suc i) b)
 \<and> tasks_by_date (action_delete_task (Write_fails f) s) = tasks_by_date (action_delete_task Write_ok s)
 \<and> todo (action_delete_task (Write_fails f) s) = todo (action_delete_task Write_ok s)"
  using toggle_bucket [of s "Write_fails f"] delete_bucket [of s "Write_fails f"]
  by (simp add: save_try_def save_all_tasks_eq add_task_for_date_eq action_toggle_task_eq
      action_delete_task_eq Let_def)

theorem save_failure_keeps_mutation_witness:
  "fst (save_try (Write_fails Unreadable) (app_with [(''2024-03-15'', [milk, bread])] 0)) = Some OSError
 \<and> tasks_by_date (add_task_for_date (Write_fails Unreadable) march15 ''eggs'' (app_with [(''2024-03-15'', [milk, bread])] 0))
     = [(''2024-03-15'', [milk, bread, eggs])]
 \<and> tasks_by_date (action_toggle_task (Write_fails Unreadable) (app_with [(''2024-03-15'', [milk, bread])] 0))
     = [(''2024-03-15'', [milk\<lparr>task_done := True\<rparr>, bread])]
 \<and> tasks_by_date (action_delete_task (Write_fails Unreadable) (app_with [(''2024-03-15'', [milk, bread])] 0))
     = [(''2024-03-15'', [bread])]
 \<and> persist (action_delete_task (Write_fails Unreadable) (app_with [(''2024-03-15'', [milk, bread])] 0))
     = Unreadable"
  using save_failure_keeps_mutation
    [of Unreadable "app_with [(''2024-03-15'', [milk, bread])] 0" march15 "''eggs''"]
  by (simp add: ev)

subsection \<open>Toggling twice\<close>

text \<open>
  Claim C10. When the bucket of the selected date is not empty, two toggles in a row,
  with nothing in between, give back the task dictionary as it was, every task with its
  text, its done flag and its position, and leave the panel as it was, whatever the
  highlight index and whatever the two writes do.
\<close>

theorem toggle_twice_restores:
  assumes "tasks_for (current_date (todo s)) s \<noteq> []"
  shows "tasks_by_date (action_toggle_task w2 (action_toggle_task w1 s)) = tasks_by_date s
       \<and> todo (action_toggle_task w2 (action_toggle_task w1 s)) = todo s"
proof -
  let ?d = "current_date (todo s)"
  let ?b = "tasks_for ?d s"
  let ?i = "nat (clamp_index (highlight_index (todo s)) (length ?b))"
  let ?b1 = "?b[?i := (?b ! ?i)\<lparr>task_done := \<not> task_done (?b ! ?i)\<rparr>]"
  let ?s1 = "action_toggle_task w1 s"
  have i: "?i < length ?b" using assms by (rule clamp_index_lt)
  have m1: "tasks_by_date ?s1 = dict_set (key_for_date ?d) ?b1 (tasks_by_date s)"
    using assms by (rule toggle_tasks_by_date)
  have t1: "todo ?s1 = todo s" by (rule toggle_todo)
  have b1: "tasks_for ?d ?s1 = ?b1" by (simp add: tasks_for_def m1 dict_get_dict_set)
  have ne: "tasks_for (current_date (todo ?s1)) ?s1 \<noteq> []" using assms by (simp add: t1 b1)
  have restored: "?b1[?i := (?b1 ! ?i)\<lparr>task_done := \<not> task_done (?b1 ! ?i)\<rparr>] = ?b"
    using i by (simp add: list_update_same_conv)
  have "tasks_by_date (action_toggle_task w2 ?s1)
          = dict_set (key_for_date ?d) ?b (tasks_by_date ?s1)"
    using toggle_tasks_by_date [OF ne, of w2] restored by (simp add: t1 b1)
  then have "tasks_by_date (action_toggle_task w2 ?s1) = dict_set (key_for_date ?d) ?b (tasks_by_date s)"
    by (simp add: m1 dict_set_twice)
  moreover have "todo (action_toggle_task w2 ?s1) = todo s" by (simp add: toggle_todo)
  ultimately show ?thesis using tasks_for_present [OF assms] by (simp add: dict_set_same)
qed

theorem toggle_twice_restores_witness:
  "tasks_for (current_date (todo (app_with [(''2024-03-15'', [milk, bread])] 9)))
      (app_with [(''2024-03-15'', [milk, bread])] 9) \<noteq> []
 \<and> tasks_by_date (action_toggle_task Write_ok (app_with [(''2024-03-15'', [milk, bread])] 9))
     = [(''2024-03-15'', [milk, bread\<lparr>task_done := False\<rparr>])]
 \<and> tasks_by_date (action_toggle_task Write_ok
       (action_toggle_task Write_ok (app_with [(''2024-03-15'', [milk, bread])] 9)))
     = [(''2024-03-15'', [milk, bread])]"
proof -
  let ?s = "app_with [(''2024-03-15'', [milk, bread])] 9"
  have ne: "tasks_for (current_date (todo ?s)) ?s \<noteq> []" by (simp add: ev)
  from toggle_twice_restores [OF ne, of Write_ok Write_ok] show ?thesis
    using ne by (simp add: ev)
qed

subsection \<open>The highlight index\<close>

lemma delete_index:
  "highlight_index (todo (action_delete_task w s)) =
     (if tasks_for (current_date (todo s)) s = [] then highlight_index (todo s)
      else clamp_index (highlight_index (todo s)) (length (tasks_for (current_date (todo s)) s) - 1))"
  by (simp add: action_delete_task_eq Let_def)

lemma delete_length:
  "tasks_for (current_date (todo s)) s \<noteq> [] \<Longrightarrow>
   length (tasks_for (current_date (todo s)) (action_delete_task w s))
     = length (tasks_for (current_date (todo s)) s) - 1"
  using clamp_index_lt [of "tasks_for (current_date (todo s)) s" "highlight_index (todo s)"]
  by (simp add: delete_bucket Let_def del: length_append length_take length_drop add: length_delete_at)

lemma feedback_fields [simp]:
  "tasks_for d (highlighted_feedback s) = tasks_for d s"
  "current_date (todo (highlighted_feedback s)) = current_date (todo s)"
  by (simp_all add: highlighted_feedback_def on_list_view_highlighted_def tasks_for_def
      split: option.splits)

lemma feedback_index:
  "highlight_index (todo (highlighted_feedback s)) =
     (case lv_index s of None \<Rightarrow> highlight_index (todo s) | Some i \<Rightarrow> i)"
  by (simp add: highlighted_feedback_def on_list_view_highlighted_def split: option.splits)

lemma toggle_lv_index:
  "tasks_for (current_date (todo s)) s \<noteq> [] \<Longrightarrow>
   lv_index (action_toggle_task w s)
     = Some (clamp_index (highlight_index (todo s)) (length (tasks_for (current_date (todo s)) s)))"
  by (cases w) (simp_all add: action_toggle_task_eq Let_def save_all_tasks_def save_try_def)

lemma delete_lv_index:
  "tasks_for (current_date (todo s)) s \<noteq> [] \<Longrightarrow>
   lv_index (action_delete_task w s)
     = (if length (tasks_for (current_date (todo s)) s) - 1 = 0 then None
        else Some (clamp_index (highlight_index (todo s))
                     (length (tasks_for (current_date (todo s)) s) - 1)))"
  by (cases w) (simp_all add: action_delete_task_eq Let_def save_all_tasks_def save_try_def)

lemma toggle_length:
  "length (tasks_for (current_date (todo s)) (action_toggle_task w s))
     = length (tasks_for (current_date (todo s)) s)"
  by (simp add: toggle_bucket Let_def)

lemma set_date_index:
  "highlight_index (todo (set_date d s)) = highlight_index (todo s)"
  "lv_index (set_date d s) = None"
  by (simp_all add: set_date_def refresh_list_eq)

text \<open>
  Claim C2, as stated, fails. \<^verbatim>\<open>set_date\<close> does not touch \<^verbatim>\<open>_highlight_index\<close>, and
  its redraw assigns no index to the list view: with the index at 5, switching to a date
  that has one task leaves the index at 5, outside \<open>[0, 0]\<close>, also after the list view's
  message has been handled. On an empty bucket toggle and delete return at once: the index
  stays 5 where the claim wants 0.
\<close>

theorem highlight_index_counterexample:
  "highlight_index (todo (set_date march16 (app_with [(''2024-03-16'', [milk])] 5))) = 5
   \<and> highlight_index (todo (highlighted_feedback
         (set_date march16 (app_with [(''2024-03-16'', [milk])] 5)))) = 5
   \<and> length (tasks_for (current_date (todo (set_date march16 (app_with [(''2024-03-16'', [milk])] 5))))
               (set_date march16 (app_with [(''2024-03-16'', [milk])] 5))) = 1
   \<and> tasks_for (current_date (todo (app_with [] 5))) (app_with [] 5) = []
   \<and> tasks_for (current_date (todo (app_with [] 5))) (action_toggle_task Write_ok (app_with [] 5)) = []
   \<and> highlight_index (todo (action_toggle_task Write_ok (app_with [] 5))) = 5
   \<and> highlight_index (todo (action_delete_task Write_ok (app_with [] 5))) = 5"
  by (simp add: ev highlighted_feedback_def on_list_view_highlighted_def)

text \<open>
  Claim C2, amended. After a toggle or a delete on a non-empty bucket the panel's
  highlighted index lies within \<open>[0, len - 1]\<close> of the date's list, or is 0 when the delete
  emptied the list. Delete stores the clamped index itself, at once, and the list view's
  message does not change it. Toggle hands the clamped index to the list view
  (\<^verbatim>\<open>lv.index\<close>), and \<^verbatim>\<open>_highlight_index\<close> takes it when the \<^verbatim>\<open>ListView.Highlighted\<close>
  message that follows is handled. A date switch, and a toggle or delete on an empty
  bucket, leave the stored index as it was. The index toggle and delete use to address a
  task is the stored one clamped, which for a bucket of \<open>n > 0\<close> tasks lies in
  \<open>[0, n - 1]\<close>.
\<close>

theorem highlight_index_in_range:
  "(tasks_for (current_date (todo s)) s \<noteq> [] \<longrightarrow>
      lv_index (action_toggle_task w s)
        = Some (clamp_index (highlight_index (todo s)) (length (tasks_for (current_date (todo s)) s)))
    \<and> 0 \<le> highlight_index (todo (highlighted_feedback (action_toggle_task w s)))
    \<and> highlight_index (todo (highlighted_feedback (action_toggle_task w s)))
         \<le> int (length (tasks_for (current_date (todo s))
                           (highlighted_feedback (action_toggle_task w s)))) - 1
    \<and> 0 \<le> highlight_index (todo (action_delete_task w s))
    \<and> (tasks_for (current_date (todo s)) (action_delete_task w s) \<noteq> [] \<longrightarrow>
          highlight_index (todo (action_delete_task w s))
            \<le> int (length (tasks_for (current_date (todo s)) (action_delete_task w s))) - 1)
    \<and> (tasks_for (current_date (todo s)) (action_delete_task w s) = [] \<longrightarrow>
          highlight_index (todo (action_delete_task w s)) = 0)
    \<and> highlight_index (todo (highlighted_feedback (action_delete_task w s)))
         = highlight_index (todo (action_delete_task w s)))
 \<and> (tasks_for (current_date (todo s)) s = [] \<longrightarrow>
      highlight_index (todo (action_toggle_task w s)) = highlight_index (todo s)
    \<and> highlight_index (todo (action_delete_task w s)) = highlight_index (todo s))
 \<and> highlight_index (todo (set_date d s)) = highlight_index (todo s)
 \<and> highlight_index (todo (highlighted_feedback (set_date d s))) = highlight_index (todo s)
 \<and> (0 < n \<longrightarrow> 0 \<le> clamp_index h n \<and> clamp_index h n \<le> int n - 1)"
proof -
  let ?d = "current_date (todo s)"
  let ?b = "tasks_for ?d s"
  let ?h = "highlight_index (todo s)"
  let ?s' = "action_delete_task w s"
  let ?b' = "tasks_for ?d ?s'"
  let ?t = "action_toggle_task w s"
  have del: "0 \<le> highlight_index (todo ?s')
      \<and> (?b' \<noteq> [] \<longrightarrow> highlight_index (todo ?s') \<le> int (length ?b') - 1)
      \<and> (?b' = [] \<longrightarrow> highlight_index (todo ?s') = 0)
      \<and> highlight_index (todo (highlighted_feedback ?s')) = highlight_index (todo ?s')"
    if ne: "?b \<noteq> []"
  proof -
    have idx: "highlight_index (todo ?s') = clamp_index ?h (length ?b')"
      using ne by (simp add: delete_index delete_length)
    have same: "highlight_index (todo (highlighted_feedback ?s')) = highlight_index (todo ?s')"
      using ne by (simp add: feedback_index delete_lv_index delete_index)
    have "0 \<le> clamp_index ?h (length ?b')
        \<and> (?b' \<noteq> [] \<longrightarrow> clamp_index ?h (length ?b') \<le> int (length ?b') - 1)
        \<and> (?b' = [] \<longrightarrow> clamp_index ?h (length ?b') = 0)"
      by (auto simp: clamp_index_def)
    then show ?thesis using same unfolding idx by simp
  qed
  have tog: "lv_index ?t = Some (clamp_index ?h (length ?b))
      \<and> 0 \<le> highlight_index (todo (highlighted_feedback ?t))
      \<and> highlight_index (todo (highlighted_feedback ?t))
           \<le> int (length (tasks_for ?d (highlighted_feedback ?t))) - 1"
    if ne: "?b \<noteq> []"
  proof -
    have lv: "lv_index ?t = Some (clamp_index ?h (length ?b))" using ne by (rule toggle_lv_index)
    have "0 < length ?b" using ne by simp
    from clamp_index_bounds [OF this, of ?h] show ?thesis
      by (simp add: feedback_index lv toggle_length)
  qed
  have empty: "highlight_index (todo ?t) = ?h \<and> highlight_index (todo ?s') = ?h" if "?b = []"
    using that by (simp add: toggle_todo delete_index)
  have switch: "highlight_index (todo (set_date d s)) = ?h
      \<and> highlight_index (todo (highlighted_feedback (set_date d s))) = ?h"
    by (simp add: set_date_index feedback_index)
  have clamp: "0 < n \<longrightarrow> 0 \<le> clamp_index h n \<and> clamp_index h n \<le> int n - 1"
    using clamp_index_bounds [of n h] by blast
  show ?thesis using del tog empty switch clamp by blast
qed

theorem highlight_index_in_range_witness:
  "tasks_for (current_date (todo (app_with [(''2024-03-15'', [milk, bread])] 7)))
      (app_with [(''2024-03-15'', [milk, bread])] 7) \<noteq> []
   \<and> highlight_index (todo (action_toggle_task Write_ok (app_with [(''2024-03-15'', [milk, bread])] 7))) = 7
   \<and> lv_index (action_toggle_task Write_ok (app_with [(''2024-03-15'', [milk, bread])] 7)) = Some 1
   \<and> highlight_index (todo (highlighted_feedback
        (action_toggle_task Write_ok (app_with [(''2024-03-15'', [milk, bread])] 7)))) = 1
   \<and> tasks_for march15 (action_delete_task Write_ok (app_with [(''2024-03-15'', [milk, bread])] 7)) = [milk]
   \<and> highlight_index (todo (action_delete_task Write_ok (app_with [(''2024-03-15'', [milk, bread])] 7))) = 0
   \<and> highlight_index (todo (highlighted_feedback
        (action_delete_task Write_ok (app_with [(''2024-03-15'', [milk, bread])] 7)))) = 0
   \<and> tasks_for (current_date (todo (app_with [] 7))) (app_with [] 7) = []
   \<and> highlight_index (todo (action_delete_task Write_ok (app_with [] 7))) = 7
   \<and> highlight_index (todo (action_toggle_task Write_ok (app_with [] 7))) = 7
   \<and> highlight_index (todo (set_date march16 (app_with [(''2024-03-15'', [milk, bread])] 7))) = 7
   \<and> (0::nat) < 2 \<and> clamp_index 7 2 = 1"
  using highlight_index_in_range
    [of "app_with [(''2024-03-15'', [milk, bread])] 7" Write_ok march16 2 7]
    highlight_index_in_range [of "app_with [] 7" Write_ok march16 2 7]
  by (simp add: ev highlighted_feedback_def on_list_view_highlighted_def)

section \<open>The calendar grid\<close>

lemma days_in_month_range:
  assumes "1 \<le> m" "m \<le> 12"
  shows "28 \<le> days_in_month y m \<and> days_in_month y m \<le> 31"
proof -
  from assms have "m = 1 \<or> m = 2 \<or> m = 3 \<or> m = 4 \<or> m = 5 \<or> m = 6 \<or> m = 7 \<or> m = 8
      \<or> m = 9 \<or> m = 10 \<or> m = 11 \<or> m = 12" by arith
  then show ?thesis by (auto simp: days_in_month_def mdays_def)
qed

lemma valid_day:
  "1 \<le> y \<Longrightarrow> y \<le> 9999 \<Longrightarrow> 1 \<le> m \<Longrightarrow> m \<le> 12 \<Longrightarrow> 1 \<le> d \<Longrightarrow> d \<le> days_in_month y m \<Longrightarrow>
   valid_date \<lparr>dyear = y, dmonth = m, dday = d\<rparr>"
  by (simp add: valid_date_def)

lemma fill_row_ok:
  assumes "\<forall>d \<in> set week. d = 0 \<or> valid_date \<lparr>dyear = y, dmonth = m, dday = d\<rparr>"
    and "\<forall>c' \<ge> c. (r, c') \<notin> fst ` set cells"
  shows "fill_row y m r c week row cells
           = (None, row @ map cell_text week, cells @ row_cells y m r c week)"
  using assms
proof (induction week arbitrary: c row cells)
  case Nil
  then show ?case by simp
next
  case (Cons day week)
  let ?v = "cell_date y m day"
  from Cons.prems(2) have fresh: "(r, c) \<notin> fst ` set cells" by auto
  have next_fresh: "\<forall>c' \<ge> Suc c. (r, c') \<notin> fst ` set (cells @ [((r, c), ?v)])"
    using Cons.prems(2) by auto
  have rest: "\<forall>d \<in> set week. d = 0 \<or> valid_date \<lparr>dyear = y, dmonth = m, dday = d\<rparr>"
    using Cons.prems(1) by simp
  have step: "fill_row y m r (Suc c) week (row @ [cell_text day]) (cells @ [((r, c), ?v)])
      = (None, (row @ [cell_text day]) @ map cell_text week,
         (cells @ [((r, c), ?v)]) @ row_cells y m r (Suc c) week)"
    using Cons.IH [OF rest next_fresh] .
  show ?case
  proof (cases "day = 0")
    case True
    then show ?thesis using step fresh by (simp add: dict_set_fresh cell_text_def cell_date_def)
  next
    case False
    with Cons.prems(1) have "valid_date \<lparr>dyear = y, dmonth = m, dday = day\<rparr>" by simp
    then show ?thesis
      using step fresh False by (simp add: dict_set_fresh cell_text_def cell_date_def mk_date_def)
  qed
qed

lemma row_cells_keys: "map fst (row_cells y m r c week) = map (Pair r) [c ..< c + length week]"
  by (induction week arbitrary: c) (simp_all add: upt_conv_Cons del: upt_Suc)

lemma fill_rows_ok:
  assumes "\<forall>week \<in> set weeks. \<forall>d \<in> set week.
             d = 0 \<or> valid_date \<lparr>dyear = year cal, dmonth = month cal, dday = d\<rparr>"
    and "\<forall>k \<in> fst ` set (cell_to_date cal). fst k < r"
  shows "fill_rows r weeks cal
           = (None, cal\<lparr>cell_to_date := cell_to_date cal @ grid_cells (year cal) (month cal) r weeks,
                         rows := rows cal @ map (map cell_text) weeks\<rparr>)"
  using assms
proof (induction weeks arbitrary: r cal)
  case Nil
  then show ?case by simp
next
  case (Cons week weeks)
  let ?y = "year cal" and ?m = "month cal"
  let ?cal1 = "cal\<lparr>cell_to_date := cell_to_date cal @ row_cells ?y ?m r 0 week,
                     rows := rows cal @ [[] @ map cell_text week]\<rparr>"
  have fresh: "\<forall>c' \<ge> 0. (r, c') \<notin> fst ` set (cell_to_date cal)"
    using Cons.prems(2) by fastforce
  have row: "fill_row ?y ?m r 0 week [] (cell_to_date cal)
               = (None, [] @ map cell_text week, cell_to_date cal @ row_cells ?y ?m r 0 week)"
    using Cons.prems(1) fresh by (intro fill_row_ok) simp_all
  have keys: "\<forall>k \<in> fst ` set (cell_to_date ?cal1). fst k < Suc r"
  proof
    fix k assume "k \<in> fst ` set (cell_to_date ?cal1)"
    then have "k \<in> fst ` set (cell_to_date cal) \<or> k \<in> set (map fst (row_cells ?y ?m r 0 week))"
      by auto
    then show "fst k < Suc r"
      using Cons.prems(2) by (auto simp: row_cells_keys less_Suc_eq)
  qed
  have rest: "\<forall>week \<in> set weeks. \<forall>d \<in> set week.
      d = 0 \<or> valid_date \<lparr>dyear = year ?cal1, dmonth = month ?cal1, dday = d\<rparr>"
    using Cons.prems(1) by simp
  show ?case using row Cons.IH [OF rest keys] by simp
qed

lemma date_weekday_range: "0 \<le> date_weekday d \<and> date_weekday d < 7"
  by (simp add: date_weekday_def)

lemma weekday_first:
  assumes "1 \<le> y" "y \<le> 9999" "1 \<le> m" "m \<le> 12"
  shows "weekday y m 1 = Inr (date_weekday \<lparr>dyear = y, dmonth = m, dday = 1\<rparr>)"
  using assms days_in_month_range [of m y]
  by (simp add: weekday_def mk_date_def valid_date_def)

lemma itermonthdays_ok:
  assumes "1 \<le> y" "y \<le> 9999" "1 \<le> m" "m \<le> 12"
  shows "itermonthdays y m
           = Inr (month_days (date_weekday \<lparr>dyear = y, dmonth = m, dday = 1\<rparr>) (days_in_month y m))"
  using assms date_weekday_range [of "\<lparr>dyear = y, dmonth = m, dday = 1\<rparr>"]
  by (simp add: itermonthdays_def monthrange_def weekday_first month_days_def mod_pos_pos_trivial)

lemma length_month_days:
  assumes "0 \<le> w" "0 \<le> n"
  shows "int (length (month_days w n)) = w + n + (- w - n) mod 7"
  using assms by (simp add: month_days_def)

lemma week_count:
  assumes "0 \<le> w" "0 \<le> n"
  shows "length (month_days w n) = 7 * nat ((w + n + 6) div 7)"
    and "w + n \<le> 7 * ((w + n + 6) div 7)" and "7 * ((w + n + 6) div 7) < w + n + 7"
proof -
  let ?a = "(- w - n) mod 7"
  let ?q = "(w + n + 6) div 7"
  have a: "0 \<le> ?a" "?a < 7" by simp_all
  have "(w + n + ?a) mod 7 = (w + n + (- w - n)) mod 7" by (rule mod_add_right_eq)
  then have "(w + n + ?a) mod 7 = 0" by simp
  then obtain k where k: "w + n + ?a = 7 * k" by (auto simp: mod_eq_0_iff_dvd)
  have "w + n + 6 = 7 * k + (6 - ?a)" using k by simp
  moreover have "0 \<le> 6 - ?a" "6 - ?a < 7" using a by simp_all
  ultimately have q: "?q = k"
    using div_mult_self4 [of 7 k "6 - ?a"] by (simp add: div_pos_pos_trivial)
  have k0: "0 \<le> k" using k a assms by linarith
  have "int (length (month_days w n)) = 7 * k" using length_month_days [OF assms] k by simp
  then show "length (month_days w n) = 7 * nat ?q" using q k0 by linarith
  show "w + n \<le> 7 * ?q" using q k a by linarith
  show "7 * ?q < w + n + 7" using q k a by linarith
qed

lemma week_slices_length: "length days = 7 * R \<Longrightarrow> length (week_slices days) = R"
  by (simp add: week_slices_def)

lemma week_slices_nth:
  assumes "length days = 7 * R" "r < R"
  shows "length (week_slices days ! r) = 7"
    and "c < 7 \<Longrightarrow> week_slices days ! r ! c = days ! (7 * r + c)"
proof -
  have r: "week_slices days ! r = take 7 (drop (7 * r) days)"
    using assms by (simp add: week_slices_def)
  have "7 * r + 7 \<le> length days" using assms by simp
  then show "length (week_slices days ! r) = 7" by (simp add: r)
  show "week_slices days ! r ! c = days ! (7 * r + c)" if "c < 7"
    using that assms by (simp add: r)
qed

lemma week_slices_all_seven:
  assumes "length days = 7 * R"
  shows "\<forall>wk \<in> set (week_slices days). length wk = 7"
proof
  fix wk assume "wk \<in> set (week_slices days)"
  then obtain r where "r < length (week_slices days)" "wk = week_slices days ! r"
    by (auto simp: in_set_conv_nth)
  then show "length wk = 7"
    using week_slices_nth(1) [OF assms, of r] week_slices_length [OF assms] by simp
qed

lemma week_slices_entries: "wk \<in> set (week_slices days) \<Longrightarrow> set wk \<subseteq> set days"
  by (auto simp: week_slices_def dest!: in_set_takeD in_set_dropD)

lemma set_month_days: "d \<in> set (month_days w n) \<Longrightarrow> d = 0 \<or> (1 \<le> d \<and> d \<le> n)"
  by (auto simp: month_days_def)

lemma month_days_nth:
  assumes "0 \<le> w" "0 \<le> n" "i < length (month_days w n)"
  shows "month_days w n ! i = (if w \<le> int i \<and> int i < w + n then int i - w + 1 else 0)"
proof -
  consider "int i < w" | "w \<le> int i" "int i < w + n" | "w + n \<le> int i" by linarith
  then show ?thesis
  proof cases
    case 1
    then have "i < nat w" by linarith
    then show ?thesis using 1 by (simp add: month_days_def nth_append)
  next
    case 2
    then have "\<not> i < nat w" "i - nat w < nat n" by linarith+
    moreover have "int (i - nat w) = int i - w" using 2 assms by linarith
    ultimately show ?thesis using 2 assms by (simp add: month_days_def nth_append)
  next
    case 3
    then have a: "\<not> i < nat w" "\<not> i - nat w < nat n" using assms by linarith+
    have "length (month_days w n) = nat w + nat n + nat ((- w - n) mod 7)"
      by (simp add: month_days_def)
    then have "i - nat w - nat n < nat ((- w - n) mod 7)"
      using assms(3) a by linarith
    then show ?thesis using 3 a assms by (simp add: month_days_def nth_append)
  qed
qed

lemma row_cells_lookup:
  "map_of (row_cells y m r c0 week) (r', c) =
     (if r' = r \<and> c0 \<le> c \<and> c < c0 + length week then Some (cell_date y m (week ! (c - c0)))
      else None)"
proof (induction week arbitrary: c0)
  case Nil
  then show ?case by simp
next
  case (Cons day week)
  show ?case
  proof (cases "r' = r \<and> c = c0")
    case True
    then show ?thesis by simp
  next
    case False
    then have "map_of (row_cells y m r c0 (day # week)) (r', c)
                 = map_of (row_cells y m r (Suc c0) week) (r', c)"
      by auto
    also have "\<dots> = (if r' = r \<and> Suc c0 \<le> c \<and> c < Suc c0 + length week
                     then Some (cell_date y m (week ! (c - Suc c0))) else None)"
      by (rule Cons.IH)
    also have "\<dots> = (if r' = r \<and> c0 \<le> c \<and> c < c0 + length (day # week)
                     then Some (cell_date y m ((day # week) ! (c - c0))) else None)"
      using False by (auto simp: nth_Cons')
    finally show ?thesis .
  qed
qed

lemma grid_cells_keys:
  "\<forall>wk \<in> set weeks. length wk = 7 \<Longrightarrow>
   map fst (grid_cells y m r0 weeks) = List.product [r0 ..< r0 + length weeks] [0 ..< 7]"
proof (induction weeks arbitrary: r0)
  case Nil
  then show ?case by simp
next
  case (Cons wk weeks)
  have "r0 < r0 + length (wk # weeks)" by simp
  then have "[r0 ..< r0 + length (wk # weeks)] = r0 # [Suc r0 ..< r0 + length (wk # weeks)]"
    by (rule upt_conv_Cons)
  moreover have "r0 + length (wk # weeks) = Suc r0 + length weeks" by simp
  ultimately have split: "[r0 ..< r0 + length (wk # weeks)] = r0 # [Suc r0 ..< Suc r0 + length weeks]"
    by (simp only:)
  have wk: "length wk = 7" and rest: "\<forall>wk \<in> set weeks. length wk = 7" using Cons.prems by simp_all
  have "map fst (grid_cells y m r0 (wk # weeks))
          = map (Pair r0) [0 ..< 7] @ List.product [Suc r0 ..< Suc r0 + length weeks] [0 ..< 7]"
    using Cons.IH [OF rest, of "Suc r0"] wk by (simp add: row_cells_keys del: upt_Suc)
  also have "\<dots> = List.product (r0 # [Suc r0 ..< Suc r0 + length weeks]) [0 ..< 7]"
    by (simp del: upt_Suc)
  finally show ?case by (simp only: split)
qed

lemma grid_cells_lookup:
  "\<forall>wk \<in> set weeks. length wk = 7 \<Longrightarrow> r0 \<le> r \<Longrightarrow> r < r0 + length weeks \<Longrightarrow> c < 7 \<Longrightarrow>
   map_of (grid_cells y m r0 weeks) (r, c) = Some (cell_date y m (weeks ! (r - r0) ! c))"
proof (induction weeks arbitrary: r0)
  case Nil
  then show ?case by simp
next
  case (Cons wk weeks)
  show ?case
  proof (cases "r = r0")
    case True
    then show ?thesis using Cons.prems by (simp add: map_add_def row_cells_lookup)
  next
    case False
    then have "Suc r0 \<le> r" "r < Suc r0 + length weeks" using Cons.prems by simp_all
    moreover have "\<forall>wk \<in> set weeks. length wk = 7" using Cons.prems by simp
    ultimately have "map_of (grid_cells y m (Suc r0) weeks) (r, c)
        = Some (cell_date y m (weeks ! (r - Suc r0) ! c))"
      using Cons.prems(4) by (intro Cons.IH)
    moreover have "(wk # weeks) ! (r - r0) = weeks ! (r - Suc r0)"
      using False Cons.prems(2) by (simp add: nth_Cons')
    ultimately show ?thesis using False by (simp add: map_add_def row_cells_lookup)
  qed
qed

lemma reload_month_ok:
  assumes "1 \<le> year cal" "year cal \<le> 9999" "1 \<le> month cal" "month cal \<le> 12"
  defines "mm \<equiv> week_slices (month_days (date_weekday \<lparr>dyear = year cal, dmonth = month cal, dday = 1\<rparr>)
                                   (days_in_month (year cal) (month cal)))"
  shows "reload_month cal =
           (None, cal\<lparr>rows := map (map cell_text) mm,
                       cell_to_date := grid_cells (year cal) (month cal) 0 mm,
                       posted := posted cal @ [MonthChanged (year cal) (month cal)]\<rparr>)"
proof -
  let ?y = "year cal" and ?m = "month cal"
  let ?n = "days_in_month ?y ?m"
  let ?cal1 = "cal\<lparr>rows := [], cell_to_date := []\<rparr>"
  have mc: "monthcalendar ?y ?m = Inr mm"
    using assms(1-4) by (simp add: monthcalendar_def itermonthdays_ok mm_def)
  have valid: "\<forall>week \<in> set mm. \<forall>d \<in> set week.
      d = 0 \<or> valid_date \<lparr>dyear = year ?cal1, dmonth = month ?cal1, dday = d\<rparr>"
  proof (intro ballI)
    fix week d assume "week \<in> set mm" "d \<in> set week"
    then have "d \<in> set (month_days (date_weekday \<lparr>dyear = ?y, dmonth = ?m, dday = 1\<rparr>) ?n)"
      using week_slices_entries unfolding mm_def by blast
    then have "d = 0 \<or> (1 \<le> d \<and> d \<le> ?n)" by (rule set_month_days)
    then show "d = 0 \<or> valid_date \<lparr>dyear = year ?cal1, dmonth = month ?cal1, dday = d\<rparr>"
      using assms(1-4) by (auto simp: valid_date_def)
  qed
  have "fill_rows 0 mm ?cal1
          = (None, ?cal1\<lparr>cell_to_date := cell_to_date ?cal1 @ grid_cells (year ?cal1) (month ?cal1) 0 mm,
                          rows := rows ?cal1 @ map (map cell_text) mm\<rparr>)"
    using valid by (intro fill_rows_ok) simp_all
  then show ?thesis using mc by (simp add: reload_month_def)
qed

lemma weekday_of_day:
  "date_weekday \<lparr>dyear = y, dmonth = m, dday = k\<rparr>
     = (date_weekday \<lparr>dyear = y, dmonth = m, dday = 1\<rparr> + (k - 1)) mod 7"
proof -
  let ?o = "days_before_year y + days_before_month y m"
  have "date_weekday \<lparr>dyear = y, dmonth = m, dday = k\<rparr> = ((?o + 1 + 6) + (k - 1)) mod 7"
    by (simp add: date_weekday_def toordinal_def algebra_simps)
  also have "\<dots> = ((?o + 1 + 6) mod 7 + (k - 1)) mod 7" by (simp only: mod_add_left_eq)
  finally show ?thesis by (simp add: date_weekday_def toordinal_def)
qed

lemma cell_index_unique:
  fixes r c r' c' :: nat
  assumes "c < 7" "c' < 7" "7 * r + c = 7 * r' + c'"
  shows "r = r' \<and> c = c'"
proof -
  have "(7 * r + c) div 7 = r" "(7 * r' + c') div 7 = r'" using assms by simp_all
  then have "r = r'" using assms(3) by simp
  then show ?thesis using assms(3) by simp
qed

lemmas cal_ev = calendar_at_def reload_month_def monthcalendar_def itermonthdays_def monthrange_def
  weekday_def mk_date_def valid_date_def days_in_month_def mdays_def isleap_def date_weekday_def
  toordinal_def days_before_year_def days_before_month_def week_slices_def Let_def

lemma weekday_feb_2024: "date_weekday \<lparr>dyear = 2024, dmonth = 2, dday = 1\<rparr> = 3"
  by (simp add: cal_ev)

lemma days_feb_2024: "days_in_month 2024 2 = 29"
  by (simp add: cal_ev)

text \<open>
  Claim C4, as stated, fails: it speaks of every year, and \<^verbatim>\<open>dt.date\<close> accepts the
  years 1 to 9999 only. For January of the year 10000 the month matrix is computed, but
  the first concrete day is refused: \<^verbatim>\<open>reload_month\<close> raises \<^verbatim>\<open>ValueError\<close>, no row has
  been added, and the cell of day 1 (row 0, Saturday) is not in the dictionary.
\<close>

theorem month_grid_year_counterexample:
  "fst (reload_month (calendar_at 10000 1)) = Some ValueError
   \<and> rows (snd (reload_month (calendar_at 10000 1))) = []
   \<and> map_of (cell_to_date (snd (reload_month (calendar_at 10000 1)))) (0, 5) = None"
  by code_simp

text \<open>
  Claim C4, amended. For every year from 1 to 9999 and every month from 1 to 12,
  \<^verbatim>\<open>reload_month\<close> returns without an exception. Let \<open>w\<close> be the weekday of the first of
  the month (Monday is 0) and \<open>n\<close> the number of days of the month. The grid has
  \<open>R = (w + n + 6) div 7\<close> rows of seven cells, the least number of Monday-start weeks
  that covers the month (\<open>w + n \<le> 7 R < w + n + 7\<close>). The dictionary holds each cell of
  the \<open>R\<close> by 7 grid once, row by row; the cell in row \<open>r\<close> and column \<open>c\<close> holds day
  \<open>7 r + c - w + 1\<close> of the month when that lies in \<open>1..n\<close>, and no date otherwise. So every
  day of the month is in exactly one cell, every date in the grid is a day of this month
  and stands in the column of its weekday, and every other cell is padding.
\<close>

theorem month_grid:
  fixes cal :: calendar_table
  defines "y \<equiv> year cal" and "m \<equiv> month cal"
  defines "w \<equiv> date_weekday \<lparr>dyear = y, dmonth = m, dday = 1\<rparr>"
  defines "n \<equiv> days_in_month y m"
  defines "R \<equiv> nat ((w + n + 6) div 7)"
  defines "cal' \<equiv> snd (reload_month cal)"
  assumes "1 \<le> year cal" "year cal \<le> 9999" "1 \<le> month cal" "month cal \<le> 12"
  shows "fst (reload_month cal) = None
    \<and> length (rows cal') = R
    \<and> (\<forall>row \<in> set (rows cal'). length row = 7)
    \<and> w + n \<le> 7 * int R \<and> 7 * int R < w + n + 7
    \<and> map fst (cell_to_date cal') = List.product [0 ..< R] [0 ..< 7]
    \<and> (\<forall>r c. r < R \<longrightarrow> c < 7 \<longrightarrow>
          map_of (cell_to_date cal') (r, c) =
            Some (if w \<le> int (7 * r + c) \<and> int (7 * r + c) < w + n
                  then Some \<lparr>dyear = y, dmonth = m, dday = int (7 * r + c) - w + 1\<rparr>
                  else None))
    \<and> (\<forall>d. 1 \<le> d \<longrightarrow> d \<le> n \<longrightarrow>
          (\<exists>!k. map_of (cell_to_date cal') k = Some (Some \<lparr>dyear = y, dmonth = m, dday = d\<rparr>)))
    \<and> (\<forall>k dt. map_of (cell_to_date cal') k = Some (Some dt) \<longrightarrow>
          dyear dt = y \<and> dmonth dt = m \<and> 1 \<le> dday dt \<and> dday dt \<le> n
          \<and> date_weekday dt = int (snd k))"
proof -
  let ?days = "month_days w n"
  let ?mm = "week_slices ?days"
  have w: "0 \<le> w" "w < 7" using date_weekday_range unfolding w_def by simp_all
  have n: "28 \<le> n" "n \<le> 31" using days_in_month_range [of m y] assms(7-10) unfolding n_def m_def by simp_all
  then have n0: "0 \<le> n" by simp
  have len: "length ?days = 7 * R" unfolding R_def using week_count(1) [OF w(1) n0] .
  have q0: "0 \<le> (w + n + 6) div 7" using w n0 by (simp add: pos_imp_zdiv_nonneg_iff)
  have cover: "w + n \<le> 7 * int R" "7 * int R < w + n + 7"
    using week_count(2,3) [OF w(1) n0] q0 unfolding R_def by simp_all
  have reload: "reload_month cal =
      (None, cal\<lparr>rows := map (map cell_text) ?mm,
                  cell_to_date := grid_cells y m 0 ?mm,
                  posted := posted cal @ [MonthChanged y m]\<rparr>)"
    using reload_month_ok [OF assms(7-10)] unfolding y_def m_def w_def n_def .
  have cells: "cell_to_date cal' = grid_cells y m 0 ?mm" and rws: "rows cal' = map (map cell_text) ?mm"
    unfolding cal'_def reload by simp_all
  have mmR: "length ?mm = R" using len by (rule week_slices_length)
  have seven: "\<forall>wk \<in> set ?mm. length wk = 7" using len by (rule week_slices_all_seven)
  have keys: "map fst (cell_to_date cal') = List.product [0 ..< R] [0 ..< 7]"
    using grid_cells_keys [OF seven, of y m 0] mmR by (simp add: cells)
  have cell: "map_of (cell_to_date cal') (r, c) =
      Some (if w \<le> int (7 * r + c) \<and> int (7 * r + c) < w + n
            then Some \<lparr>dyear = y, dmonth = m, dday = int (7 * r + c) - w + 1\<rparr> else None)"
    if "r < R" "c < 7" for r c
  proof -
    have "map_of (cell_to_date cal') (r, c) = Some (cell_date y m (?mm ! r ! c))"
      using grid_cells_lookup [OF seven, of 0 r c y m] that mmR by (simp add: cells)
    moreover have "?mm ! r ! c = ?days ! (7 * r + c)"
      using week_slices_nth(2) [OF len that(1) that(2)] .
    moreover have "7 * r + c < length ?days" using that len by simp
    then have "?days ! (7 * r + c)
        = (if w \<le> int (7 * r + c) \<and> int (7 * r + c) < w + n then int (7 * r + c) - w + 1 else 0)"
      by (rule month_days_nth [OF w(1) n0])
    ultimately show ?thesis by (auto simp: cell_date_def)
  qed
  have in_grid: "fst k < R \<and> snd k < 7" if "map_of (cell_to_date cal') k = Some v" for k v
  proof -
    from that have "(k, v) \<in> set (cell_to_date cal')" by (rule map_of_SomeD)
    then have "k \<in> set (map fst (cell_to_date cal'))" by force
    then show ?thesis unfolding keys by auto
  qed
  have holds: "dyear dt = y \<and> dmonth dt = m \<and> 1 \<le> dday dt \<and> dday dt \<le> n
        \<and> date_weekday dt = int (snd k) \<and> int (7 * fst k + snd k) = w + dday dt - 1"
    if k: "map_of (cell_to_date cal') k = Some (Some dt)" for k dt
  proof -
    obtain r c where rc: "k = (r, c)" by (cases k)
    have b: "r < R" "c < 7" using in_grid [OF k] rc by simp_all
    from cell [OF b] k rc
    have dt: "dt = \<lparr>dyear = y, dmonth = m, dday = int (7 * r + c) - w + 1\<rparr>"
      and rng: "w \<le> int (7 * r + c)" "int (7 * r + c) < w + n"
      by (auto split: if_splits)
    have "date_weekday dt = (w + (int (7 * r + c) - w + 1 - 1)) mod 7"
      unfolding dt w_def by (rule weekday_of_day)
    also have "\<dots> = (int c + 7 * int r) mod 7" by (simp add: algebra_simps)
    also have "\<dots> = int c" using b(2) by simp
    finally show ?thesis using dt rng rc by simp
  qed
  have once: "\<exists>!k. map_of (cell_to_date cal') k = Some (Some \<lparr>dyear = y, dmonth = m, dday = d\<rparr>)"
    if d: "1 \<le> d" "d \<le> n" for d
  proof -
    let ?i = "nat (w + d - 1)"
    let ?k = "(?i div 7, ?i mod 7)"
    have i: "int ?i = w + d - 1" using w d by simp
    have "int ?i < 7 * int R" using i d cover by linarith
    then have "?i < 7 * R" by linarith
    then have r: "?i div 7 < R" by (simp add: less_mult_imp_div_less mult.commute)
    have c: "?i mod 7 < 7" by simp
    have idx: "7 * (?i div 7) + ?i mod 7 = ?i" by simp
    have here: "map_of (cell_to_date cal') ?k = Some (Some \<lparr>dyear = y, dmonth = m, dday = d\<rparr>)"
      using cell [OF r c] i d w unfolding idx by simp
    show ?thesis
    proof (rule ex1I [of _ ?k])
      show "map_of (cell_to_date cal') ?k = Some (Some \<lparr>dyear = y, dmonth = m, dday = d\<rparr>)"
        by (rule here)
    next
      fix k assume k: "map_of (cell_to_date cal') k = Some (Some \<lparr>dyear = y, dmonth = m, dday = d\<rparr>)"
      have "int (7 * fst k + snd k) = w + d - 1" using holds [OF k] by simp
      then have "7 * fst k + snd k = 7 * (?i div 7) + ?i mod 7" using i idx by linarith
      moreover have "snd k < 7" using in_grid [OF k] by simp
      ultimately have "fst k = ?i div 7 \<and> snd k = ?i mod 7"
        using cell_index_unique [of "snd k" "?i mod 7" "fst k" "?i div 7"] c by blast
      then show "k = ?k" by (cases k) simp
    qed
  qed
  have rowlen: "\<forall>row \<in> set (rows cal'). length row = 7" using seven by (auto simp: rws)
  have "fst (reload_month cal) = None" by (simp add: reload)
  moreover have "length (rows cal') = R" by (simp add: rws mmR)
  ultimately show ?thesis using rowlen cover keys cell once holds by blast
qed

theorem month_grid_witness:
  "1 \<le> year (calendar_at 2024 2) \<and> year (calendar_at 2024 2) \<le> 9999
   \<and> 1 \<le> month (calendar_at 2024 2) \<and> month (calendar_at 2024 2) \<le> 12
   \<and> fst (reload_month (calendar_at 2024 2)) = None
   \<and> length (rows (snd (reload_month (calendar_at 2024 2)))) = 5
   \<and> map_of (cell_to_date (snd (reload_month (calendar_at 2024 2)))) (0, 2) = Some None
   \<and> map_of (cell_to_date (snd (reload_month (calendar_at 2024 2)))) (0, 3)
       = Some (Some \<lparr>dyear = 2024, dmonth = 2, dday = 1\<rparr>)
   \<and> map_of (cell_to_date (snd (reload_month (calendar_at 2024 2)))) (4, 3)
       = Some (Some \<lparr>dyear = 2024, dmonth = 2, dday = 29\<rparr>)
   \<and> map_of (cell_to_date (snd (reload_month (calendar_at 2024 2)))) (4, 4) = Some None"
proof -
  let ?cal = "calendar_at 2024 2"
  have h: "1 \<le> year ?cal" "year ?cal \<le> 9999" "1 \<le> month ?cal" "month ?cal \<le> 12"
    by (simp_all add: calendar_at_def)
  have ym: "year ?cal = 2024" "month ?cal = 2" by (simp_all add: calendar_at_def)
  note g = month_grid [OF h, unfolded ym weekday_feb_2024 days_feb_2024]
  have R: "nat ((3 + 29 + 6) div 7) = (5::nat)" by simp
  from g have rows: "fst (reload_month ?cal) = None" "length (rows (snd (reload_month ?cal))) = 5"
    by (simp_all add: R)
  from g have cell: "\<And>r c. r < 5 \<Longrightarrow> c < 7 \<Longrightarrow>
      map_of (cell_to_date (snd (reload_month ?cal))) (r, c) =
        Some (if 3 \<le> int (7 * r + c) \<and> int (7 * r + c) < 3 + 29
              then Some \<lparr>dyear = 2024, dmonth = 2, dday = int (7 * r + c) - 3 + 1\<rparr> else None)"
    by (simp add: R)
  show ?thesis using h rows cell [of 0 2] cell [of 0 3] cell [of 4 3] cell [of 4 4] by simp
qed

section \<open>Month navigation\<close>

lemma fill_rows_year_month:
  "year (snd (fill_rows r weeks cal)) = year cal \<and> month (snd (fill_rows r weeks cal)) = month cal"
proof (induction weeks arbitrary: r cal)
  case Nil
  then show ?case by simp
next
  case (Cons week weeks)
  show ?case
  proof (cases "fill_row (year cal) (month cal) r 0 week [] (cell_to_date cal)")
    case (fields e row_cells cells)
    then show ?thesis using Cons.IH by (cases e) simp_all
  qed
qed

lemma reload_month_year_month:
  "year (snd (reload_month cal)) = year cal \<and> month (snd (reload_month cal)) = month cal"
proof (cases "monthcalendar (year cal) (month cal)")
  case (Inl e)
  then show ?thesis by (simp add: reload_month_def)
next
  case (Inr mm)
  obtain e cal2 where f: "fill_rows 0 mm (cal\<lparr>rows := [], cell_to_date := []\<rparr>) = (e, cal2)"
    by (cases "fill_rows 0 mm (cal\<lparr>rows := [], cell_to_date := []\<rparr>)")
  from fill_rows_year_month [of 0 mm "cal\<lparr>rows := [], cell_to_date := []\<rparr>"] f
  have "year cal2 = year cal \<and> month cal2 = month cal" by simp
  then show ?thesis using Inr f by (cases e) (simp_all add: reload_month_def)
qed

lemma next_month_ym:
  "year (snd (action_next_month cal)) = (if month cal = 12 then year cal + 1 else year cal)"
  "month (snd (action_next_month cal)) = (if month cal = 12 then 1 else month cal + 1)"
  by (simp_all add: action_next_month_def reload_month_year_month)

lemma prev_month_ym:
  "year (snd (action_prev_month cal)) = (if month cal = 1 then year cal - 1 else year cal)"
  "month (snd (action_prev_month cal)) = (if month cal = 1 then 12 else month cal - 1)"
  by (simp_all add: action_prev_month_def reload_month_year_month)

lemma next_month_returns:
  assumes "1 \<le> year cal" "year cal < 9999" "1 \<le> month cal" "month cal \<le> 12"
  shows "fst (action_next_month cal) = None"
  using assms by (simp add: action_next_month_def reload_month_ok)

lemma prev_month_returns:
  assumes "1 < year cal" "year cal \<le> 9999" "1 \<le> month cal" "month cal \<le> 12"
  shows "fst (action_prev_month cal) = None"
  using assms by (simp add: action_prev_month_def reload_month_ok)

lemma succ_mod12: "((k::int) + 1) mod 12 = (if k mod 12 = 11 then 0 else k mod 12 + 1)"
proof -
  have "(k + 1) mod 12 = (k mod 12 + 1) mod 12" by (simp add: mod_add_left_eq)
  moreover have "0 \<le> k mod 12" "k mod 12 < 12" by simp_all
  ultimately show ?thesis by (auto simp: mod_pos_pos_trivial)
qed

lemma succ_div12: "((k::int) + 1) div 12 = (if k mod 12 = 11 then k div 12 + 1 else k div 12)"
proof -
  have "(k + 1) div 12 = k div 12 + (k mod 12 + 1) div 12"
    using div_add1_eq [of k 1 12] by simp
  moreover have "0 \<le> k mod 12" "k mod 12 < 12" by simp_all
  ultimately show ?thesis by (auto simp: div_pos_pos_trivial)
qed

lemma pred_mod12: "((k::int) - 1) mod 12 = (if k mod 12 = 0 then 11 else k mod 12 - 1)"
  using succ_mod12 [of "k - 1"] by (auto split: if_splits)

lemma pred_div12: "((k::int) - 1) div 12 = (if k mod 12 = 0 then k div 12 - 1 else k div 12)"
  using succ_div12 [of "k - 1"] succ_mod12 [of "k - 1"] by (auto split: if_splits)

lemma next_month_iter:
  assumes "1 \<le> month cal" "month cal \<le> 12"
  shows "month (((\<lambda>c. snd (action_next_month c)) ^^ n) cal) = (month cal - 1 + int n) mod 12 + 1
       \<and> year (((\<lambda>c. snd (action_next_month c)) ^^ n) cal) = year cal + (month cal - 1 + int n) div 12"
proof (induction n)
  case 0
  then show ?case using assms by simp
next
  case (Suc n)
  let ?c = "((\<lambda>c. snd (action_next_month c)) ^^ n) cal"
  let ?k = "month cal - 1 + int n"
  have m: "month ?c = ?k mod 12 + 1" and y: "year ?c = year cal + ?k div 12"
    using Suc.IH by blast+
  have e: "month cal - 1 + int (Suc n) = ?k + 1" by simp
  have step: "((\<lambda>c. snd (action_next_month c)) ^^ Suc n) cal = snd (action_next_month ?c)" by simp
  show ?case
  proof (cases "?k mod 12 = 11")
    case True
    then have "(?k + 1) mod 12 = 0" and "(?k + 1) div 12 = ?k div 12 + 1"
      by (simp_all only: succ_mod12 succ_div12 simp_thms if_True if_False)
    then show ?thesis unfolding step e using True by (simp only: next_month_ym m y) simp
  next
    case False
    then have "(?k + 1) mod 12 = ?k mod 12 + 1" and "(?k + 1) div 12 = ?k div 12"
      by (simp_all only: succ_mod12 succ_div12 simp_thms if_True if_False)
    then show ?thesis unfolding step e using False by (simp only: next_month_ym m y) simp
  qed
qed

lemma prev_month_iter:
  assumes "1 \<le> month cal" "month cal \<le> 12"
  shows "month (((\<lambda>c. snd (action_prev_month c)) ^^ n) cal) = (month cal - 1 - int n) mod 12 + 1
       \<and> year (((\<lambda>c. snd (action_prev_month c)) ^^ n) cal) = year cal + (month cal - 1 - int n) div 12"
proof (induction n)
  case 0
  then show ?case using assms by simp
next
  case (Suc n)
  let ?c = "((\<lambda>c. snd (action_prev_month c)) ^^ n) cal"
  let ?k = "month cal - 1 - int n"
  have m: "month ?c = ?k mod 12 + 1" and y: "year ?c = year cal + ?k div 12"
    using Suc.IH by blast+
  have e: "month cal - 1 - int (Suc n) = ?k - 1" by simp
  have step: "((\<lambda>c. snd (action_prev_month c)) ^^ Suc n) cal = snd (action_prev_month ?c)" by simp
  show ?case
  proof (cases "?k mod 12 = 0")
    case True
    then have "(?k - 1) mod 12 = 11" and "(?k - 1) div 12 = ?k div 12 - 1"
      by (simp_all only: pred_mod12 pred_div12 simp_thms if_True if_False)
    then show ?thesis unfolding step e using True by (simp only: prev_month_ym m y) simp
  next
    case False
    then have "(?k - 1) mod 12 = ?k mod 12 - 1" and "(?k - 1) div 12 = ?k div 12"
      by (simp_all only: pred_mod12 pred_div12 simp_thms if_True if_False)
    then show ?thesis unfolding step e using False by (simp only: prev_month_ym m y) simp
  qed
qed

lemma twelve_steps:
  fixes m :: int
  assumes "1 \<le> m" "m \<le> 12"
  shows "(m - 1 + 12) mod 12 + 1 = m \<and> (m - 1 + 12) div 12 = 1
       \<and> (m - 1 - 12) mod 12 + 1 = m \<and> (m - 1 - 12) div 12 = - 1"
proof -
  have r: "(m - 1) mod 12 = m - 1" "(m - 1) div 12 = 0"
    using assms by (simp_all add: mod_pos_pos_trivial div_pos_pos_trivial)
  have a: "(m - 1 + 12) mod 12 = (m - 1) mod 12" by (rule mod_add_self2)
  have b: "(m - 1 + 12) div 12 = (m - 1) div 12 + 1" by (rule div_add_self2) simp
  have c: "(m - 1 - 12) mod 12 = (m - 1) mod 12"
    using mod_add_self2 [of "m - 1 - 12" 12] by simp
  have d: "(m - 1 - 12) div 12 = (m - 1) div 12 - 1"
    using div_add_self2 [of 12 "m - 1 - 12"] by simp
  show ?thesis unfolding a b c d r by simp
qed

text \<open>
  Claim C5. \<^verbatim>\<open>action_prev_month\<close> and \<^verbatim>\<open>action_next_month\<close> assign \<^verbatim>\<open>year\<close> and
  \<^verbatim>\<open>month\<close> before they redraw, so the table holds the new values whether or not the
  redraw raises. From month 1 a backward step gives month 12 of the year before; from
  month 12 a forward step gives month 1 of the year after. From a month in \<open>1..12\<close>,
  twelve forward steps give the same month of the next year and twelve backward steps the
  same month of the year before; one step, and any number of steps in one direction,
  leave the month in \<open>1..12\<close>. A step that lands in a year from 1 to 9999 returns without
  an exception.
\<close>

theorem month_navigation_carry:
  "(month cal = 1 \<longrightarrow>
      month (snd (action_prev_month cal)) = 12 \<and> year (snd (action_prev_month cal)) = year cal - 1)
 \<and> (month cal = 12 \<longrightarrow>
      month (snd (action_next_month cal)) = 1 \<and> year (snd (action_next_month cal)) = year cal + 1)
 \<and> (1 \<le> month cal \<and> month cal \<le> 12 \<longrightarrow>
      month (((\<lambda>c. snd (action_next_month c)) ^^ 12) cal) = month cal
    \<and> year (((\<lambda>c. snd (action_next_month c)) ^^ 12) cal) = year cal + 1
    \<and> month (((\<lambda>c. snd (action_prev_month c)) ^^ 12) cal) = month cal
    \<and> year (((\<lambda>c. snd (action_prev_month c)) ^^ 12) cal) = year cal - 1
    \<and> 1 \<le> month (snd (action_next_month cal)) \<and> month (snd (action_next_month cal)) \<le> 12
    \<and> 1 \<le> month (snd (action_prev_month cal)) \<and> month (snd (action_prev_month cal)) \<le> 12
    \<and> (\<forall>n. 1 \<le> month (((\<lambda>c. snd (action_next_month c)) ^^ n) cal)
            \<and> month (((\<lambda>c. snd (action_next_month c)) ^^ n) cal) \<le> 12
            \<and> 1 \<le> month (((\<lambda>c. snd (action_prev_month c)) ^^ n) cal)
            \<and> month (((\<lambda>c. snd (action_prev_month c)) ^^ n) cal) \<le> 12)
    \<and> (1 \<le> year cal \<and> year cal < 9999 \<longrightarrow> fst (action_next_month cal) = None)
    \<and> (1 < year cal \<and> year cal \<le> 9999 \<longrightarrow> fst (action_prev_month cal) = None))"
proof -
  have range: "1 \<le> k mod 12 + 1 \<and> k mod 12 + 1 \<le> 12" for k :: int
    using pos_mod_bound [of 12 k] pos_mod_sign [of 12 k] by simp
  show ?thesis
    using next_month_iter [of cal] prev_month_iter [of cal] range twelve_steps [of "month cal"]
      next_month_returns [of cal] prev_month_returns [of cal]
    by (simp add: next_month_ym prev_month_ym)
qed

theorem month_navigation_carry_witness:
  "month (calendar_at 2024 1) = 1
 \<and> month (snd (action_prev_month (calendar_at 2024 1))) = 12
 \<and> year (snd (action_prev_month (calendar_at 2024 1))) = 2023
 \<and> month (calendar_at 2024 12) = 12
 \<and> month (snd (action_next_month (calendar_at 2024 12))) = 1
 \<and> year (snd (action_next_month (calendar_at 2024 12))) = 2025
 \<and> 1 \<le> month (calendar_at 2024 12) \<and> month (calendar_at 2024 12) \<le> 12
 \<and> month (((\<lambda>c. snd (action_next_month c)) ^^ 12) (calendar_at 2024 12)) = 12
 \<and> year (((\<lambda>c. snd (action_next_month c)) ^^ 12) (calendar_at 2024 12)) = 2025
 \<and> month (((\<lambda>c. snd (action_prev_month c)) ^^ 12) (calendar_at 2024 1)) = 1
 \<and> year (((\<lambda>c. snd (action_prev_month c)) ^^ 12) (calendar_at 2024 1)) = 2023
 \<and> 1 \<le> year (calendar_at 2024 12) \<and> year (calendar_at 2024 12) < 9999
 \<and> fst (action_next_month (calendar_at 2024 12)) = None
 \<and> 1 < year (calendar_at 2024 1) \<and> year (calendar_at 2024 1) \<le> 9999
 \<and> fst (action_prev_month (calendar_at 2024 1)) = None"
proof -
  have f: "month (calendar_at 2024 1) = 1" "year (calendar_at 2024 1) = 2024"
    "month (calendar_at 2024 12) = 12" "year (calendar_at 2024 12) = 2024"
    by (simp_all add: calendar_at_def)
  show ?thesis
    using month_navigation_carry [of "calendar_at 2024 1"]
      month_navigation_carry [of "calendar_at 2024 12"]
    unfolding f by simp
qed

section \<open>The rollover timer\<close>

lemma action_today_year_month:
  "year (snd (action_today today cal)) = dyear today \<and> month (snd (action_today today cal)) = dmonth today"
proof -
  let ?c = "cal\<lparr>year := dyear today, month := dmonth today\<rparr>"
  obtain e c1 where r: "reload_month ?c = (e, c1)" by (cases "reload_month ?c")
  with reload_month_year_month [of ?c] have "year c1 = dyear today \<and> month c1 = dmonth today" by simp
  then show ?thesis using r by (cases e) (simp_all add: action_today_def)
qed

lemma action_today_returns: "valid_date today \<Longrightarrow> fst (action_today today cal) = None"
  by (simp add: action_today_def valid_date_def reload_month_ok)

lemma app_action_today_eq:
  "app_action_today today s = set_date today (s\<lparr>calendar := snd (action_today today (calendar s))\<rparr>)"
  by (cases "action_today today (calendar s)" rule: prod.exhaust)
     (auto simp: app_action_today_def split: option.splits)

lemma tick_day_change_eq:
  "tick_day_change today s =
     (if today \<noteq> last_date s then app_action_today today (s\<lparr>last_date := today\<rparr>) else s)"
  by (cases "action_today today (calendar s)" rule: prod.exhaust)
     (auto simp: tick_day_change_def app_action_today_def Let_def split: option.splits)

lemma set_date_fields [simp]:
  "last_date (set_date d s) = last_date s"
  "calendar (set_date d s) = calendar s"
  "current_date (todo (set_date d s)) = d"
  by (simp_all add: set_date_def refresh_list_eq)

text \<open>
  Claim C6. Take any last observed date and any system date. When they differ, the tick
  records the system date as last observed and makes the transition of the application's
  jump to today: the calendar is that of \<^verbatim>\<open>action_today\<close> (on today's year and month,
  redrawn without an exception when today is a date \<^verbatim>\<open>dt.date\<close> accepts) and the panel
  shows today. When they are equal the tick changes nothing at all. Hence a second tick
  on the same system date changes nothing.
\<close>

theorem rollover_tick:
  "(today \<noteq> last_date s \<longrightarrow>
       tick_day_change today s = app_action_today today (s\<lparr>last_date := today\<rparr>)
     \<and> last_date (tick_day_change today s) = today
     \<and> current_date (todo (tick_day_change today s)) = today
     \<and> calendar (tick_day_change today s) = snd (action_today today (calendar s))
     \<and> year (calendar (tick_day_change today s)) = dyear today
     \<and> month (calendar (tick_day_change today s)) = dmonth today
     \<and> (valid_date today \<longrightarrow> fst (action_today today (calendar s)) = None))
 \<and> (today = last_date s \<longrightarrow> tick_day_change today s = s)
 \<and> tick_day_change today (tick_day_change today s) = tick_day_change today s"
proof -
  have last: "last_date (tick_day_change today s) = today"
    by (simp add: tick_day_change_eq app_action_today_eq)
  have again: "tick_day_change today (tick_day_change today s) = tick_day_change today s"
    using last by (simp add: tick_day_change_eq [of today "tick_day_change today s"])
  show ?thesis
    using last again
    by (simp add: tick_day_change_eq app_action_today_eq action_today_year_month
        action_today_returns)
qed

theorem rollover_tick_witness:
  "march16 \<noteq> last_date (app_with [] 0)
 \<and> last_date (tick_day_change march16 (app_with [] 0)) = march16
 \<and> current_date (todo (tick_day_change march16 (app_with [] 0))) = march16
 \<and> year (calendar (tick_day_change march16 (app_with [] 0))) = 2024
 \<and> month (calendar (tick_day_change march16 (app_with [] 0))) = 3
 \<and> valid_date march16
 \<and> fst (action_today march16 (calendar (app_with [] 0))) = None
 \<and> tick_day_change march16 (tick_day_change march16 (app_with [] 0))
     = tick_day_change march16 (app_with [] 0)
 \<and> march15 = last_date (app_with [] 0)
 \<and> tick_day_change march15 (app_with [] 0) = app_with [] 0"
proof -
  have f: "last_date (app_with [] 0) = march15" by (simp add: app_with_def)
  have ne: "march16 \<noteq> march15" by (simp add: march15_def march16_def)
  have v: "valid_date march16"
    by (simp add: valid_date_def march16_def days_in_month_def mdays_def)
  have r16:
    "last_date (tick_day_change march16 (app_with [] 0)) = march16"
    "current_date (todo (tick_day_change march16 (app_with [] 0))) = march16"
    "year (calendar (tick_day_change march16 (app_with [] 0))) = dyear march16"
    "month (calendar (tick_day_change march16 (app_with [] 0))) = dmonth march16"
    "fst (action_today march16 (calendar (app_with [] 0))) = None"
    "tick_day_change march16 (tick_day_change march16 (app_with [] 0))
       = tick_day_change march16 (app_with [] 0)"
    using rollover_tick [of march16 "app_with [] 0"] ne v unfolding f by blast+
  have r15: "tick_day_change march15 (app_with [] 0) = app_with [] 0"
    using rollover_tick [of march15 "app_with [] 0"] unfolding f by blast
  have ym: "dyear march16 = 2024" "dmonth march16 = 3" by (simp_all add: march16_def)
  show ?thesis using r16 r15 ne v unfolding f ym by simp
qed

end
